theory Spec2Isabelle
  imports Complex_Main "HOL-Library.Word"
begin

unbundle bit_operations_syntax

section \<open>Machine types, macros and errors\<close>

type_synonym u32 = "32 word"
type_synonym u64 = "64 word"

text \<open>
  The ways a call can stop without returning: a failed \<^verbatim>\<open>assert\<close>, and reading through
  a pointer that is \<^verbatim>\<open>NULL\<close> or has been passed to \<^verbatim>\<open>free\<close>.
\<close>

datatype error = AssertionFailed | NullDereference | UseAfterFree

text \<open>\<^verbatim>\<open>DRV_MAX_PLANES\<close>: the length of every per-plane array.\<close>

definition DRV_MAX_PLANES :: nat where
  "DRV_MAX_PLANES = 4"

text \<open>
  \<^verbatim>\<open>#define DIV_ROUND_UP(n, d) (((n) + (d)-1) / (d))\<close> and
  \<^verbatim>\<open>#define ALIGN(A, B) (((A) + (B)-1) & ~((B)-1))\<close>, at the type \<^verbatim>\<open>uint32_t\<close> their
  first argument has at every use: an \<^verbatim>\<open>int\<close> second argument is converted to
  \<^verbatim>\<open>unsigned\<close>, and the sum wraps around at \<open>2 ^ 32\<close>.
\<close>

definition DIV_ROUND_UP :: "u32 \<Rightarrow> u32 \<Rightarrow> u32" where
  "DIV_ROUND_UP n d = (n + d - 1) div d"

definition ALIGN :: "u32 \<Rightarrow> u32 \<Rightarrow> u32" where
  "ALIGN a b = (a + (b - 1)) AND NOT (b - 1)"

section \<open>The layout catalog\<close>

text \<open>
  A format is a \<^verbatim>\<open>uint32_t\<close> code. The catalog's \<^verbatim>\<open>switch\<close> tells the named codes
  apart (its case labels are pairwise different, or it would not compile) and sends
  every other code to \<^verbatim>\<open>default\<close>: \<open>DRM_FORMAT_OTHER c\<close> is such a code.
\<close>

datatype drm_format =
    DRM_FORMAT_BGR233 | DRM_FORMAT_C8 | DRM_FORMAT_R8 | DRM_FORMAT_RGB332
  | DRM_FORMAT_R16
  | DRM_FORMAT_YVU420 | DRM_FORMAT_YVU420_ANDROID
  | DRM_FORMAT_NV12 | DRM_FORMAT_NV21
  | DRM_FORMAT_P010
  | DRM_FORMAT_ABGR1555 | DRM_FORMAT_ABGR4444 | DRM_FORMAT_ARGB1555 | DRM_FORMAT_ARGB4444
  | DRM_FORMAT_BGR565 | DRM_FORMAT_BGRA4444 | DRM_FORMAT_BGRA5551 | DRM_FORMAT_BGRX4444
  | DRM_FORMAT_BGRX5551 | DRM_FORMAT_GR88 | DRM_FORMAT_RG88 | DRM_FORMAT_RGB565
  | DRM_FORMAT_RGBA4444 | DRM_FORMAT_RGBA5551 | DRM_FORMAT_RGBX4444 | DRM_FORMAT_RGBX5551
  | DRM_FORMAT_UYVY | DRM_FORMAT_VYUY | DRM_FORMAT_XBGR1555 | DRM_FORMAT_XBGR4444
  | DRM_FORMAT_XRGB1555 | DRM_FORMAT_XRGB4444 | DRM_FORMAT_YUYV | DRM_FORMAT_YVYU
  | DRM_FORMAT_MTISP_SXYZW10
  | DRM_FORMAT_BGR888 | DRM_FORMAT_RGB888
  | DRM_FORMAT_ABGR2101010 | DRM_FORMAT_ABGR8888 | DRM_FORMAT_ARGB2101010
  | DRM_FORMAT_ARGB8888 | DRM_FORMAT_AYUV | DRM_FORMAT_BGRA1010102 | DRM_FORMAT_BGRA8888
  | DRM_FORMAT_BGRX1010102 | DRM_FORMAT_BGRX8888 | DRM_FORMAT_RGBA1010102
  | DRM_FORMAT_RGBA8888 | DRM_FORMAT_RGBX1010102 | DRM_FORMAT_RGBX8888
  | DRM_FORMAT_XBGR2101010 | DRM_FORMAT_XBGR8888 | DRM_FORMAT_XRGB2101010
  | DRM_FORMAT_XRGB8888
  | DRM_FORMAT_ABGR16161616F
  | DRM_FORMAT_OTHER u32

record planar_layout =
  num_planes :: nat
  horizontal_subsampling :: "int list"
  vertical_subsampling :: "int list"
  bytes_per_pixel :: "int list"

text \<open>
  The arrays have \<^verbatim>\<open>DRV_MAX_PLANES\<close> elements; those the initialiser does not name
  are zero.
\<close>

definition packed_1bpp_layout :: planar_layout where
  "packed_1bpp_layout = \<lparr> num_planes = 1, horizontal_subsampling = [1, 0, 0, 0],
     vertical_subsampling = [1, 0, 0, 0], bytes_per_pixel = [1, 0, 0, 0] \<rparr>"

definition packed_2bpp_layout :: planar_layout where
  "packed_2bpp_layout = \<lparr> num_planes = 1, horizontal_subsampling = [1, 0, 0, 0],
     vertical_subsampling = [1, 0, 0, 0], bytes_per_pixel = [2, 0, 0, 0] \<rparr>"

definition packed_3bpp_layout :: planar_layout where
  "packed_3bpp_layout = \<lparr> num_planes = 1, horizontal_subsampling = [1, 0, 0, 0],
     vertical_subsampling = [1, 0, 0, 0], bytes_per_pixel = [3, 0, 0, 0] \<rparr>"

definition packed_4bpp_layout :: planar_layout where
  "packed_4bpp_layout = \<lparr> num_planes = 1, horizontal_subsampling = [1, 0, 0, 0],
     vertical_subsampling = [1, 0, 0, 0], bytes_per_pixel = [4, 0, 0, 0] \<rparr>"

definition packed_8bpp_layout :: planar_layout where
  "packed_8bpp_layout = \<lparr> num_planes = 1, horizontal_subsampling = [1, 0, 0, 0],
     vertical_subsampling = [1, 0, 0, 0], bytes_per_pixel = [8, 0, 0, 0] \<rparr>"

definition biplanar_yuv_420_layout :: planar_layout where
  "biplanar_yuv_420_layout = \<lparr> num_planes = 2, horizontal_subsampling = [1, 2, 0, 0],
     vertical_subsampling = [1, 2, 0, 0], bytes_per_pixel = [1, 2, 0, 0] \<rparr>"

definition triplanar_yuv_420_layout :: planar_layout where
  "triplanar_yuv_420_layout = \<lparr> num_planes = 3, horizontal_subsampling = [1, 2, 2, 0],
     vertical_subsampling = [1, 2, 2, 0], bytes_per_pixel = [1, 1, 1, 0] \<rparr>"

definition biplanar_yuv_p010_layout :: planar_layout where
  "biplanar_yuv_p010_layout = \<lparr> num_planes = 2, horizontal_subsampling = [1, 2, 0, 0],
     vertical_subsampling = [1, 2, 0, 0], bytes_per_pixel = [2, 4, 0, 0] \<rparr>"

text \<open>\<open>None\<close> is the \<^verbatim>\<open>NULL\<close> of the \<^verbatim>\<open>default\<close> branch.\<close>

fun layout_from_format :: "drm_format \<Rightarrow> planar_layout option" where
  "layout_from_format DRM_FORMAT_BGR233 = Some packed_1bpp_layout"
| "layout_from_format DRM_FORMAT_C8 = Some packed_1bpp_layout"
| "layout_from_format DRM_FORMAT_R8 = Some packed_1bpp_layout"
| "layout_from_format DRM_FORMAT_RGB332 = Some packed_1bpp_layout"
| "layout_from_format DRM_FORMAT_R16 = Some packed_2bpp_layout"
| "layout_from_format DRM_FORMAT_YVU420 = Some triplanar_yuv_420_layout"
| "layout_from_format DRM_FORMAT_YVU420_ANDROID = Some triplanar_yuv_420_layout"
| "layout_from_format DRM_FORMAT_NV12 = Some biplanar_yuv_420_layout"
| "layout_from_format DRM_FORMAT_NV21 = Some biplanar_yuv_420_layout"
| "layout_from_format DRM_FORMAT_P010 = Some biplanar_yuv_p010_layout"
| "layout_from_format DRM_FORMAT_ABGR1555 = Some packed_2bpp_layout"
| "layout_from_format DRM_FORMAT_ABGR4444 = Some packed_2bpp_layout"
| "layout_from_format DRM_FORMAT_ARGB1555 = Some packed_2bpp_layout"
| "layout_from_format DRM_FORMAT_ARGB4444 = Some packed_2bpp_layout"
| "layout_from_format DRM_FORMAT_BGR565 = Some packed_2bpp_layout"
| "layout_from_format DRM_FORMAT_BGRA4444 = Some packed_2bpp_layout"
| "layout_from_format DRM_FORMAT_BGRA5551 = Some packed_2bpp_layout"
| "layout_from_format DRM_FORMAT_BGRX4444 = Some packed_2bpp_layout"
| "layout_from_format DRM_FORMAT_BGRX5551 = Some packed_2bpp_layout"
| "layout_from_format DRM_FORMAT_GR88 = Some packed_2bpp_layout"
| "layout_from_format DRM_FORMAT_RG88 = Some packed_2bpp_layout"
| "layout_from_format DRM_FORMAT_RGB565 = Some packed_2bpp_layout"
| "layout_from_format DRM_FORMAT_RGBA4444 = Some packed_2bpp_layout"
| "layout_from_format DRM_FORMAT_RGBA5551 = Some packed_2bpp_layout"
| "layout_from_format DRM_FORMAT_RGBX4444 = Some packed_2bpp_layout"
| "layout_from_format DRM_FORMAT_RGBX5551 = Some packed_2bpp_layout"
| "layout_from_format DRM_FORMAT_UYVY = Some packed_2bpp_layout"
| "layout_from_format DRM_FORMAT_VYUY = Some packed_2bpp_layout"
| "layout_from_format DRM_FORMAT_XBGR1555 = Some packed_2bpp_layout"
| "layout_from_format DRM_FORMAT_XBGR4444 = Some packed_2bpp_layout"
| "layout_from_format DRM_FORMAT_XRGB1555 = Some packed_2bpp_layout"
| "layout_from_format DRM_FORMAT_XRGB4444 = Some packed_2bpp_layout"
| "layout_from_format DRM_FORMAT_YUYV = Some packed_2bpp_layout"
| "layout_from_format DRM_FORMAT_YVYU = Some packed_2bpp_layout"
| "layout_from_format DRM_FORMAT_MTISP_SXYZW10 = Some packed_2bpp_layout"
| "layout_from_format DRM_FORMAT_BGR888 = Some packed_3bpp_layout"
| "layout_from_format DRM_FORMAT_RGB888 = Some packed_3bpp_layout"
| "layout_from_format DRM_FORMAT_ABGR2101010 = Some packed_4bpp_layout"
| "layout_from_format DRM_FORMAT_ABGR8888 = Some packed_4bpp_layout"
| "layout_from_format DRM_FORMAT_ARGB2101010 = Some packed_4bpp_layout"
| "layout_from_format DRM_FORMAT_ARGB8888 = Some packed_4bpp_layout"
| "layout_from_format DRM_FORMAT_AYUV = Some packed_4bpp_layout"
| "layout_from_format DRM_FORMAT_BGRA1010102 = Some packed_4bpp_layout"
| "layout_from_format DRM_FORMAT_BGRA8888 = Some packed_4bpp_layout"
| "layout_from_format DRM_FORMAT_BGRX1010102 = Some packed_4bpp_layout"
| "layout_from_format DRM_FORMAT_BGRX8888 = Some packed_4bpp_layout"
| "layout_from_format DRM_FORMAT_RGBA1010102 = Some packed_4bpp_layout"
| "layout_from_format DRM_FORMAT_RGBA8888 = Some packed_4bpp_layout"
| "layout_from_format DRM_FORMAT_RGBX1010102 = Some packed_4bpp_layout"
| "layout_from_format DRM_FORMAT_RGBX8888 = Some packed_4bpp_layout"
| "layout_from_format DRM_FORMAT_XBGR2101010 = Some packed_4bpp_layout"
| "layout_from_format DRM_FORMAT_XBGR8888 = Some packed_4bpp_layout"
| "layout_from_format DRM_FORMAT_XRGB2101010 = Some packed_4bpp_layout"
| "layout_from_format DRM_FORMAT_XRGB8888 = Some packed_4bpp_layout"
| "layout_from_format DRM_FORMAT_ABGR16161616F = Some packed_8bpp_layout"
| "layout_from_format (DRM_FORMAT_OTHER c) = None"


section \<open>Geometry queries\<close>

definition drv_num_planes_from_format :: "drm_format \<Rightarrow> nat" where
  "drv_num_planes_from_format fmt =
     (case layout_from_format fmt of
        Some layout \<Rightarrow> planar_layout.num_planes layout
      | None \<Rightarrow> 0)"

text \<open>
  The other queries read \<^verbatim>\<open>layout->num_planes\<close> with no check of the pointer, inside
  an \<^verbatim>\<open>assert\<close> on the plane index. The catalog's \<^verbatim>\<open>int\<close> entries are converted to
  \<^verbatim>\<open>unsigned\<close> where they meet a \<^verbatim>\<open>uint32_t\<close>.
\<close>

definition drv_height_from_format :: "drm_format \<Rightarrow> u32 \<Rightarrow> nat \<Rightarrow> error + u32" where
  "drv_height_from_format fmt h plane =
     (case layout_from_format fmt of
        None \<Rightarrow> Inl NullDereference
      | Some layout \<Rightarrow>
          if \<not> plane < planar_layout.num_planes layout then Inl AssertionFailed
          else Inr (DIV_ROUND_UP h (word_of_int (vertical_subsampling layout ! plane))))"

definition drv_vertical_subsampling_from_format :: "drm_format \<Rightarrow> nat \<Rightarrow> error + u32" where
  "drv_vertical_subsampling_from_format fmt plane =
     (case layout_from_format fmt of
        None \<Rightarrow> Inl NullDereference
      | Some layout \<Rightarrow>
          if \<not> plane < planar_layout.num_planes layout then Inl AssertionFailed
          else Inr (word_of_int (vertical_subsampling layout ! plane)))"

definition drv_bytes_per_pixel_from_format :: "drm_format \<Rightarrow> nat \<Rightarrow> error + u32" where
  "drv_bytes_per_pixel_from_format fmt plane =
     (case layout_from_format fmt of
        None \<Rightarrow> Inl NullDereference
      | Some layout \<Rightarrow>
          if \<not> plane < planar_layout.num_planes layout then Inl AssertionFailed
          else Inr (word_of_int (bytes_per_pixel layout ! plane)))"

definition drv_stride_from_format :: "drm_format \<Rightarrow> u32 \<Rightarrow> nat \<Rightarrow> error + u32" where
  "drv_stride_from_format fmt w plane =
     (case layout_from_format fmt of
        None \<Rightarrow> Inl NullDereference
      | Some layout \<Rightarrow>
          if \<not> plane < planar_layout.num_planes layout then Inl AssertionFailed
          else
            let plane_width = DIV_ROUND_UP w (word_of_int (horizontal_subsampling layout ! plane));
                stride = plane_width * word_of_int (bytes_per_pixel layout ! plane)
            in Inr (if fmt = DRM_FORMAT_YVU420_ANDROID
                    then (if plane = 0 then ALIGN stride 32 else ALIGN stride 16)
                    else stride))"

definition drv_size_from_format :: "drm_format \<Rightarrow> u32 \<Rightarrow> u32 \<Rightarrow> nat \<Rightarrow> error + u32" where
  "drv_size_from_format fmt stride h plane =
     (case drv_height_from_format fmt h plane of
        Inl e \<Rightarrow> Inl e
      | Inr ph \<Rightarrow> Inr (stride * ph))"

definition subsample_stride :: "u32 \<Rightarrow> drm_format \<Rightarrow> nat \<Rightarrow> u32" where
  "subsample_stride stride fmt plane =
     (if plane \<noteq> 0 \<and> (fmt = DRM_FORMAT_YVU420 \<or> fmt = DRM_FORMAT_YVU420_ANDROID)
      then DIV_ROUND_UP stride 2
      else stride)"

section \<open>Buffer objects\<close>

text \<open>
  \<^verbatim>\<open>struct bo_metadata\<close> and \<^verbatim>\<open>struct bo\<close>, with the fields the functions below
  read or write (\<open>handles\<close> holds the \<^verbatim>\<open>u32\<close> member of each plane's handle). The per-plane arrays are lists of \<^verbatim>\<open>DRV_MAX_PLANES\<close> elements
  (\<open>bo_arrays_ok\<close>); \<^verbatim>\<open>size_t\<close> is 64 bits wide.
\<close>

record bo_metadata =
  height :: u32
  tiling :: u32
  num_planes :: nat
  offsets :: "u32 list"
  sizes :: "u32 list"
  strides :: "u32 list"
  total_size :: u64

record bo =
  meta :: bo_metadata
  handles :: "u32 list"

definition bo_arrays_ok :: "bo \<Rightarrow> bool" where
  "bo_arrays_ok b \<longleftrightarrow>
     length (offsets (meta b)) = DRV_MAX_PLANES \<and>
     length (sizes (meta b)) = DRV_MAX_PLANES \<and>
     length (strides (meta b)) = DRV_MAX_PLANES \<and>
     length (handles b) = DRV_MAX_PLANES"

text \<open>
  The body of the \<^verbatim>\<open>for\<close> loop of \<^verbatim>\<open>drv_bo_from_format_and_padding\<close>, and the loop
  from plane \<open>p\<close> with the running \<^verbatim>\<open>offset\<close>. It returns the buffer object and the
  final offset.
\<close>

definition fill_plane ::
  "u32 \<Rightarrow> u32 \<Rightarrow> drm_format \<Rightarrow> u32 list \<Rightarrow> nat \<Rightarrow> u32 \<Rightarrow> bo \<Rightarrow> error + bo \<times> u32" where
  "fill_plane stride aligned_height fmt padding p offset b =
     (let b1 = b\<lparr>meta := (meta b)\<lparr>strides := (strides (meta b))[p := subsample_stride stride fmt p]\<rparr>\<rparr>
      in case drv_size_from_format fmt (strides (meta b1) ! p) aligned_height p of
           Inl e \<Rightarrow> Inl e
         | Inr sz \<Rightarrow>
             let b2 = b1\<lparr>meta := (meta b1)\<lparr>sizes := (sizes (meta b1))[p := sz + padding ! p]\<rparr>\<rparr>;
                 b3 = b2\<lparr>meta := (meta b2)\<lparr>offsets := (offsets (meta b2))[p := offset]\<rparr>\<rparr>
             in Inr (b3, offset + sizes (meta b3) ! p))"

function fill_planes ::
  "u32 \<Rightarrow> u32 \<Rightarrow> drm_format \<Rightarrow> u32 list \<Rightarrow> nat \<Rightarrow> nat \<Rightarrow> u32 \<Rightarrow> bo \<Rightarrow> error + bo \<times> u32" where
  "fill_planes stride aligned_height fmt padding n p offset b =
     (if p < n then
        (case fill_plane stride aligned_height fmt padding p offset b of
           Inl e \<Rightarrow> Inl e
         | Inr (b', offset') \<Rightarrow> fill_planes stride aligned_height fmt padding n (Suc p) offset' b')
      else Inr (b, offset))"
  by pat_completeness auto
termination
  by (relation "measure (\<lambda>(stride, aligned_height, fmt, padding, n, p, offset, b). n - p)") auto

declare fill_planes.simps [simp del]

definition drv_bo_from_format_and_padding ::
  "bo \<Rightarrow> u32 \<Rightarrow> u32 \<Rightarrow> drm_format \<Rightarrow> u32 list \<Rightarrow> error + bo" where
  "drv_bo_from_format_and_padding b stride aligned_height fmt padding =
     (let n = drv_num_planes_from_format fmt in
      if n = 0 then Inl AssertionFailed
      else if fmt = DRM_FORMAT_YVU420_ANDROID \<and> aligned_height \<noteq> height (meta b)
        then Inl AssertionFailed
      else if fmt = DRM_FORMAT_YVU420_ANDROID \<and> stride \<noteq> ALIGN stride 32
        then Inl AssertionFailed
      else
        (case fill_planes stride aligned_height fmt padding n 0 0 b of
           Inl e \<Rightarrow> Inl e
         | Inr (b', offset) \<Rightarrow> Inr (b'\<lparr>meta := (meta b')\<lparr>total_size := ucast offset\<rparr>\<rparr>)))"

definition drv_bo_from_format :: "bo \<Rightarrow> u32 \<Rightarrow> u32 \<Rightarrow> drm_format \<Rightarrow> error + bo" where
  "drv_bo_from_format b stride aligned_height fmt =
     drv_bo_from_format_and_padding b stride aligned_height fmt [0, 0, 0, 0]"


text \<open>
  A buffer object as \<^verbatim>\<open>calloc\<close> leaves it, with the height and the plane count filled
  in: the concrete buffer object of the examples below.
\<close>

definition zeroed_bo :: "u32 \<Rightarrow> nat \<Rightarrow> bo" where
  "zeroed_bo h n = \<lparr> meta = \<lparr> height = h, tiling = 0, num_planes = n,
       offsets = [0, 0, 0, 0], sizes = [0, 0, 0, 0], strides = [0, 0, 0, 0], total_size = 0 \<rparr>,
     handles = [0, 0, 0, 0] \<rparr>"

section \<open>The combination registry\<close>

record format_metadata =
  priority :: u32
  tiling :: u32
  modifier :: u64

record combination =
  format :: drm_format
  metadata :: format_metadata
  use_flags :: u64

text \<open>
  Modelled from the spec: the \<^verbatim>\<open>drv_array\<close> helpers are not among the sources. The spec
  calls the container a growable ordered collection whose removal is order-preserving and
  shifts the later indices down: a list.
\<close>

definition drv_array_size :: "'a list \<Rightarrow> nat" where
  "drv_array_size xs = length xs"

definition drv_array_at_idx :: "'a list \<Rightarrow> nat \<Rightarrow> 'a" where
  "drv_array_at_idx xs idx = xs ! idx"

definition drv_array_append :: "'a list \<Rightarrow> 'a \<Rightarrow> 'a list" where
  "drv_array_append xs x = xs @ [x]"

definition drv_array_remove :: "'a list \<Rightarrow> nat \<Rightarrow> 'a list" where
  "drv_array_remove xs idx = take idx xs @ drop (Suc idx) xs"

text \<open>
  \<^verbatim>\<open>struct vma\<close> and \<^verbatim>\<open>struct mapping\<close>. A mapping holds a pointer to its vma, and
  several mappings may hold the same pointer: \<open>vma\<close> is an address in a store of vma
  objects.
\<close>

record vma =
  handle :: u32
  refcount :: u32

record mapping =
  vma :: nat

text \<open>
  \<^verbatim>\<open>struct driver\<close>: the registry, the mapping cache and the handle table. The table is
  libdrm's hash table from \<^verbatim>\<open>unsigned long\<close> keys to \<^verbatim>\<open>void *\<close> values, here a map
  to the pointer's 64 bits.
\<close>

record driver =
  combos :: "combination list"
  mappings :: "mapping list"
  buffer_table :: "u32 \<rightharpoonup> u64"

definition drv_add_combination :: "driver \<Rightarrow> drm_format \<Rightarrow> format_metadata \<Rightarrow> u64 \<Rightarrow> driver" where
  "drv_add_combination drv fmt md uf =
     drv\<lparr>combos := drv_array_append (combos drv)
            \<lparr>format = fmt, metadata = md, use_flags = uf\<rparr>\<rparr>"

text \<open>The \<^verbatim>\<open>for\<close> loop of \<^verbatim>\<open>drv_modify_combination\<close>, from index \<open>i\<close>.\<close>

function modify_combination_from ::
  "drm_format \<Rightarrow> format_metadata \<Rightarrow> u64 \<Rightarrow> nat \<Rightarrow> combination list \<Rightarrow> combination list" where
  "modify_combination_from fmt md uf i cs =
     (if i < drv_array_size cs then
        let combo = drv_array_at_idx cs i in
        if format combo = fmt \<and>
           format_metadata.tiling (metadata combo) = format_metadata.tiling md \<and>
           modifier (metadata combo) = modifier md
        then modify_combination_from fmt md uf (Suc i)
               (cs[i := combo\<lparr>use_flags := use_flags combo OR uf\<rparr>])
        else modify_combination_from fmt md uf (Suc i) cs
      else cs)"
  by pat_completeness auto
termination
  by (relation "measure (\<lambda>(fmt, md, uf, i, cs). length cs - i)")
     (auto simp: drv_array_size_def)

declare modify_combination_from.simps [simp del]

definition drv_modify_combination ::
  "driver \<Rightarrow> drm_format \<Rightarrow> format_metadata \<Rightarrow> u64 \<Rightarrow> driver" where
  "drv_modify_combination drv fmt md uf =
     drv\<lparr>combos := modify_combination_from fmt md uf 0 (combos drv)\<rparr>"

section \<open>The modifier selector\<close>

text \<open>\<^verbatim>\<open>DRM_FORMAT_MOD_LINEAR\<close> of the kernel's \<^verbatim>\<open>drm_fourcc.h\<close>.\<close>

definition DRM_FORMAT_MOD_LINEAR :: u64 where
  "DRM_FORMAT_MOD_LINEAR = 0"

text \<open>
  The inner loop over \<open>j\<close> returns \<open>Some\<close> where the source returns from the function,
  \<open>None\<close> where the loop ends.
\<close>

function pick_modifier_inner :: "u64 list \<Rightarrow> nat \<Rightarrow> u64 \<Rightarrow> nat \<Rightarrow> u64 option" where
  "pick_modifier_inner modifiers count wanted j =
     (if j < count then
        if modifiers ! j = wanted then Some (modifiers ! j)
        else pick_modifier_inner modifiers count wanted (Suc j)
      else None)"
  by pat_completeness auto
termination
  by (relation "measure (\<lambda>(modifiers, count, wanted, j). count - j)") auto

declare pick_modifier_inner.simps [simp del]

function pick_modifier_outer :: "u64 list \<Rightarrow> nat \<Rightarrow> u64 list \<Rightarrow> nat \<Rightarrow> nat \<Rightarrow> u64" where
  "pick_modifier_outer modifiers count modifier_order order_count i =
     (if i < order_count then
        (case pick_modifier_inner modifiers count (modifier_order ! i) 0 of
           Some m \<Rightarrow> m
         | None \<Rightarrow> pick_modifier_outer modifiers count modifier_order order_count (Suc i))
      else DRM_FORMAT_MOD_LINEAR)"
  by pat_completeness auto
termination
  by (relation "measure (\<lambda>(modifiers, count, modifier_order, order_count, i). order_count - i)")
     auto

declare pick_modifier_outer.simps [simp del]

definition drv_pick_modifier :: "u64 list \<Rightarrow> nat \<Rightarrow> u64 list \<Rightarrow> nat \<Rightarrow> u64" where
  "drv_pick_modifier modifiers count modifier_order order_count =
     pick_modifier_outer modifiers count modifier_order order_count 0"

section \<open>Handle reference counts\<close>

text \<open>
  libdrm's table: \<^verbatim>\<open>drmHashLookup\<close> returns 0 and the value when the key is present
  (\<open>Some\<close>), nonzero otherwise (\<open>None\<close>); \<^verbatim>\<open>drmHashDelete\<close> of an absent key changes
  nothing; \<^verbatim>\<open>drmHashInsert\<close> leaves a key that is present as it is.
\<close>

definition drmHashLookup :: "(u32 \<rightharpoonup> u64) \<Rightarrow> u32 \<Rightarrow> u64 option" where
  "drmHashLookup t key = t key"

definition drmHashDelete :: "(u32 \<rightharpoonup> u64) \<Rightarrow> u32 \<Rightarrow> (u32 \<rightharpoonup> u64)" where
  "drmHashDelete t key = t(key := None)"

definition drmHashInsert :: "(u32 \<rightharpoonup> u64) \<Rightarrow> u32 \<Rightarrow> u64 \<Rightarrow> (u32 \<rightharpoonup> u64)" where
  "drmHashInsert t key v = (case t key of Some old \<Rightarrow> t | None \<Rightarrow> t(key \<mapsto> v))"

definition drv_get_reference_count :: "driver \<Rightarrow> bo \<Rightarrow> nat \<Rightarrow> u64" where
  "drv_get_reference_count drv b plane =
     (case drmHashLookup (buffer_table drv) (handles b ! plane) of
        Some count \<Rightarrow> count
      | None \<Rightarrow> 0)"

definition drv_increment_reference_count :: "driver \<Rightarrow> bo \<Rightarrow> nat \<Rightarrow> driver" where
  "drv_increment_reference_count drv b plane =
     (let num = drv_get_reference_count drv b plane;
          t1 = drmHashDelete (buffer_table drv) (handles b ! plane);
          t2 = drmHashInsert t1 (handles b ! plane) (num + 1)
      in drv\<lparr>buffer_table := t2\<rparr>)"

definition drv_decrement_reference_count :: "driver \<Rightarrow> bo \<Rightarrow> nat \<Rightarrow> driver" where
  "drv_decrement_reference_count drv b plane =
     (let num = drv_get_reference_count drv b plane;
          t1 = drmHashDelete (buffer_table drv) (handles b ! plane);
          t2 = (if num > 0 then drmHashInsert t1 (handles b ! plane) (num - 1) else t1)
      in drv\<lparr>buffer_table := t2\<rparr>)"


section \<open>The kernel behind \<^verbatim>\<open>drmIoctl\<close>\<close>

text \<open>
  The requests the functions below issue, with the fields they fill in; every request goes
  to the device descriptor \<^verbatim>\<open>bo->drv->fd\<close>, which none of them changes. A reply carries
  the return value, the \<^verbatim>\<open>errno\<close> a failure sets and the fields the kernel writes back.
  The kernel is any function from the requests issued so far and the current one to a
  reply; the \<open>world\<close> keeps the log of requests and \<^verbatim>\<open>errno\<close>.
\<close>

record create_dumb_args =
  cd_height :: u32
  cd_width :: u32
  cd_bpp :: u32
  cd_flags :: u32

datatype ioctl_request =
    DRM_IOCTL_MODE_CREATE_DUMB create_dumb_args
  | DRM_IOCTL_GEM_CLOSE u32
  | DRM_IOCTL_PRIME_FD_TO_HANDLE int

record ioctl_reply =
  ret :: int
  err :: int
  out_handle :: u32
  out_pitch :: u32
  out_size :: u64

type_synonym kernel = "ioctl_request list \<Rightarrow> ioctl_request \<Rightarrow> ioctl_reply"

record world =
  calls :: "ioctl_request list"
  errno :: int

definition drmIoctl :: "kernel \<Rightarrow> world \<Rightarrow> ioctl_request \<Rightarrow> ioctl_reply \<times> world" where
  "drmIoctl k w req =
     (let r = k (calls w) req
      in (r, w\<lparr>calls := calls w @ [req], errno := (if ret r \<noteq> 0 then err r else errno w)\<rparr>))"

section \<open>Dumb buffers, GEM close and prime import\<close>

text \<open>\<^verbatim>\<open>BO_QUIRK_NONE\<close>; the bit \<^verbatim>\<open>BO_QUIRK_DUMB32BPP\<close> is a parameter \<open>dumb32bpp\<close>.\<close>

definition BO_QUIRK_NONE :: u64 where
  "BO_QUIRK_NONE = 0"

text \<open>
  The \<^verbatim>\<open>switch\<close> of \<^verbatim>\<open>drv_dumb_bo_create_ex\<close>: the aligned width, the aligned height
  and the value of \<^verbatim>\<open>height\<close> after it.
\<close>

definition dumb_bo_dimensions :: "bo \<Rightarrow> u32 \<Rightarrow> u32 \<Rightarrow> drm_format \<Rightarrow> u32 \<times> u32 \<times> u32" where
  "dumb_bo_dimensions b w h fmt =
     (if fmt = DRM_FORMAT_R16 then (ALIGN w 16, h, h)
      else if fmt = DRM_FORMAT_YVU420_ANDROID then
        (let h' = height (meta b) in (ALIGN w 32, 3 * DIV_ROUND_UP h' 2, h'))
      else if fmt = DRM_FORMAT_YVU420 \<or> fmt = DRM_FORMAT_NV12 \<or> fmt = DRM_FORMAT_NV21 then
        (w, 3 * DIV_ROUND_UP h 2, h)
      else (w, h, h))"

text \<open>The loop that stores the new handle in every plane, from \<open>plane\<close>.\<close>

function set_plane_handles :: "u32 \<Rightarrow> nat \<Rightarrow> bo \<Rightarrow> bo" where
  "set_plane_handles hdl plane b =
     (if plane < num_planes (meta b)
      then set_plane_handles hdl (Suc plane) (b\<lparr>handles := (handles b)[plane := hdl]\<rparr>)
      else b)"
  by pat_completeness auto
termination
  by (relation "measure (\<lambda>(hdl, plane, b). num_planes (meta b) - plane)") auto

declare set_plane_handles.simps [simp del]

text \<open>The result is the return value, the buffer object and the world.\<close>

definition drv_dumb_bo_create_ex ::
  "kernel \<Rightarrow> u64 \<Rightarrow> world \<Rightarrow> bo \<Rightarrow> u32 \<Rightarrow> u32 \<Rightarrow> drm_format \<Rightarrow> u64 \<Rightarrow> u64
     \<Rightarrow> error + int \<times> bo \<times> world" where
  "drv_dumb_bo_create_ex k dumb32bpp wld b w h fmt uf quirks =
     (let (aligned_width, aligned_height, h') = dumb_bo_dimensions b w h fmt
      in case layout_from_format fmt of
           None \<Rightarrow> Inl NullDereference
         | Some layout \<Rightarrow>
             let bpp0 = word_of_int (bytes_per_pixel layout ! 0);
                 (aligned_width', bpp) =
                    (if quirks AND dumb32bpp \<noteq> 0
                     then (DIV_ROUND_UP (aligned_width * bpp0) 4, 32)
                     else (aligned_width, bpp0 * 8));
                 (r, wld') = drmIoctl k wld (DRM_IOCTL_MODE_CREATE_DUMB
                    \<lparr>cd_height = aligned_height, cd_width = aligned_width',
                     cd_bpp = bpp, cd_flags = 0\<rparr>)
             in if ret r \<noteq> 0 then Inr (- errno wld', b, wld')
                else
                  (case drv_bo_from_format b (out_pitch r) h' fmt of
                     Inl e \<Rightarrow> Inl e
                   | Inr b1 \<Rightarrow>
                       let b2 = set_plane_handles (out_handle r) 0 b1
                       in Inr (0, b2\<lparr>meta := (meta b2)\<lparr>total_size := out_size r\<rparr>\<rparr>, wld')))"

definition drv_dumb_bo_create ::
  "kernel \<Rightarrow> u64 \<Rightarrow> world \<Rightarrow> bo \<Rightarrow> u32 \<Rightarrow> u32 \<Rightarrow> drm_format \<Rightarrow> u64 \<Rightarrow> error + int \<times> bo \<times> world" where
  "drv_dumb_bo_create k dumb32bpp wld b w h fmt uf =
     drv_dumb_bo_create_ex k dumb32bpp wld b w h fmt uf BO_QUIRK_NONE"

text \<open>
  The inner loop of \<^verbatim>\<open>drv_gem_bo_destroy\<close>: the value of \<open>i\<close> when it ends, which is
  \<open>plane\<close> when no earlier plane has the handle.
\<close>

function earlier_plane :: "u32 list \<Rightarrow> nat \<Rightarrow> nat \<Rightarrow> nat" where
  "earlier_plane hs plane i =
     (if i < plane then
        if hs ! i = hs ! plane then i else earlier_plane hs plane (Suc i)
      else i)"
  by pat_completeness auto
termination
  by (relation "measure (\<lambda>(hs, plane, i). plane - i)") auto

declare earlier_plane.simps [simp del]

function gem_close_planes :: "kernel \<Rightarrow> bo \<Rightarrow> nat \<Rightarrow> int \<Rightarrow> world \<Rightarrow> int \<times> world" where
  "gem_close_planes k b plane error wld =
     (if plane < num_planes (meta b) then
        if earlier_plane (handles b) plane 0 \<noteq> plane
        then gem_close_planes k b (Suc plane) error wld
        else
          let (r, wld') = drmIoctl k wld (DRM_IOCTL_GEM_CLOSE (handles b ! plane))
          in gem_close_planes k b (Suc plane) (if ret r \<noteq> 0 then - errno wld' else error) wld'
      else (error, wld))"
  by pat_completeness auto
termination
  by (relation "measure (\<lambda>(k, b, plane, error, wld). num_planes (meta b) - plane)") auto

declare gem_close_planes.simps [simp del]

definition drv_gem_bo_destroy :: "kernel \<Rightarrow> world \<Rightarrow> bo \<Rightarrow> int \<times> world" where
  "drv_gem_bo_destroy k wld b = gem_close_planes k b 0 0 wld"

record drv_import_fd_data =
  fds :: "int list"
  tiling :: u32

text \<open>
  The loop of \<^verbatim>\<open>drv_prime_bo_import\<close> from \<open>plane\<close>; the result is the return value,
  the buffer object and the world.
\<close>

function prime_import_planes ::
  "kernel \<Rightarrow> drv_import_fd_data \<Rightarrow> nat \<Rightarrow> world \<Rightarrow> bo \<Rightarrow> int \<times> bo \<times> world" where
  "prime_import_planes k data plane wld b =
     (if plane < num_planes (meta b) then
        let (r, wld') = drmIoctl k wld (DRM_IOCTL_PRIME_FD_TO_HANDLE (fds data ! plane))
        in if ret r \<noteq> 0 then
             let b' = b\<lparr>meta := (meta b)\<lparr>num_planes := plane\<rparr>\<rparr>;
                 (e, wld'') = drv_gem_bo_destroy k wld' b'
             in (- errno wld'', b', wld'')
           else prime_import_planes k data (Suc plane) wld'
                  (b\<lparr>handles := (handles b)[plane := out_handle r]\<rparr>)
      else (0, b\<lparr>meta := (meta b)\<lparr>bo_metadata.tiling := drv_import_fd_data.tiling data\<rparr>\<rparr>, wld))"
  by pat_completeness auto
termination
  by (relation "measure (\<lambda>(k, data, plane, wld, b). num_planes (meta b) - plane)") auto

declare prime_import_planes.simps [simp del]

definition drv_prime_bo_import ::
  "kernel \<Rightarrow> world \<Rightarrow> bo \<Rightarrow> drv_import_fd_data \<Rightarrow> int \<times> bo \<times> world" where
  "drv_prime_bo_import k wld b data = prime_import_planes k data 0 wld b"

section \<open>The mapping cache\<close>

text \<open>
  The state \<^verbatim>\<open>drv_mapping_destroy\<close> works on: the driver, the store of vma objects (an
  address that has been freed holds \<open>None\<close>) and the log of the vma addresses passed to
  the backend's \<^verbatim>\<open>bo_unmap\<close>. The backend is any function from the calls so far, the
  buffer object, the address and the vma to a return value.
\<close>

record cache_state =
  the_driver :: driver
  vmas :: "nat \<rightharpoonup> vma"
  unmaps :: "nat list"

type_synonym backend_unmap = "nat list \<Rightarrow> bo \<Rightarrow> nat \<Rightarrow> vma \<Rightarrow> int"

text \<open>
  The \<^verbatim>\<open>while\<close> loop for one plane, from \<open>idx\<close>. \<open>Some r\<close> in the result is the
  \<^verbatim>\<open>return ret\<close> after a failed unmap, \<open>None\<close> the end of the loop; with it come the
  final \<open>idx\<close> and state.
\<close>

function mapping_scan ::
  "backend_unmap \<Rightarrow> bo \<Rightarrow> nat \<Rightarrow> nat \<Rightarrow> cache_state \<Rightarrow> error + int option \<times> nat \<times> cache_state" where
  "mapping_scan unmap b plane idx s =
     (if idx < drv_array_size (mappings (the_driver s)) then
        let m = drv_array_at_idx (mappings (the_driver s)) idx in
        case vmas s (vma m) of
          None \<Rightarrow> Inl UseAfterFree
        | Some v \<Rightarrow>
            if handle v \<noteq> handles b ! plane then mapping_scan unmap b plane (Suc idx) s
            else
              let v' = v\<lparr>refcount := refcount v - 1\<rparr>;
                  s1 = s\<lparr>vmas := (vmas s)(vma m \<mapsto> v')\<rparr>
              in if refcount v' = 0 then
                   let r = unmap (unmaps s1) b (vma m) v';
                       s2 = s1\<lparr>unmaps := unmaps s1 @ [vma m]\<rparr>
                   in if r \<noteq> 0 then Inr (Some r, idx, s2)
                      else
                        let s3 = s2\<lparr>vmas := (vmas s2)(vma m := None)\<rparr>
                        in mapping_scan unmap b plane idx
                             (s3\<lparr>the_driver := (the_driver s3)\<lparr>mappings := drv_array_remove (mappings (the_driver s3)) idx\<rparr>\<rparr>)
                 else mapping_scan unmap b plane idx
                        (s1\<lparr>the_driver := (the_driver s1)\<lparr>mappings := drv_array_remove (mappings (the_driver s1)) idx\<rparr>\<rparr>)
      else Inr (None, idx, s))"
  by pat_completeness auto
termination
  by (relation "measure (\<lambda>(unmap, b, plane, idx, s). length (mappings (the_driver s)) - idx)")
     (auto simp: drv_array_size_def drv_array_remove_def)

declare mapping_scan.simps [simp del]

text \<open>The \<^verbatim>\<open>for\<close> loop over the planes; \<open>idx\<close> is set once, before it.\<close>

function mapping_destroy_planes ::
  "backend_unmap \<Rightarrow> bo \<Rightarrow> nat \<Rightarrow> nat \<Rightarrow> cache_state \<Rightarrow> error + int \<times> cache_state" where
  "mapping_destroy_planes unmap b plane idx s =
     (if plane < num_planes (meta b) then
        (case mapping_scan unmap b plane idx s of
           Inl e \<Rightarrow> Inl e
         | Inr (Some r, idx', s') \<Rightarrow> Inr (r, s')
         | Inr (None, idx', s') \<Rightarrow> mapping_destroy_planes unmap b (Suc plane) idx' s')
      else Inr (0, s))"
  by pat_completeness auto
termination
  by (relation "measure (\<lambda>(unmap, b, plane, idx, s). num_planes (meta b) - plane)") auto

declare mapping_destroy_planes.simps [simp del]

definition drv_mapping_destroy :: "backend_unmap \<Rightarrow> cache_state \<Rightarrow> bo \<Rightarrow> error + int \<times> cache_state" where
  "drv_mapping_destroy unmap s b = mapping_destroy_planes unmap b 0 0 s"




section \<open>Concrete states of the examples\<close>

definition empty_driver :: driver where
  "empty_driver = \<lparr>combos = [], mappings = [], buffer_table = Map.empty\<rparr>"

definition example_driver :: driver where
  "example_driver = \<lparr>combos =
      [\<lparr>format = DRM_FORMAT_XRGB8888,
        metadata = \<lparr>priority = 1, tiling = 0, modifier = 0\<rparr>, use_flags = 1\<rparr>,
       \<lparr>format = DRM_FORMAT_NV12,
        metadata = \<lparr>priority = 1, tiling = 0, modifier = 0\<rparr>, use_flags = 2\<rparr>,
       \<lparr>format = DRM_FORMAT_XRGB8888,
        metadata = \<lparr>priority = 1, tiling = 1, modifier = 0\<rparr>, use_flags = 4\<rparr>],
     mappings = [], buffer_table = Map.empty\<rparr>"

text \<open>A kernel that imports descriptor 10 as handle 1, any other as handle 2, and fails on 12.\<close>

definition example_import_kernel :: kernel where
  "example_import_kernel history request =
     (case request of
        DRM_IOCTL_PRIME_FD_TO_HANDLE fd \<Rightarrow>
          if fd = 12 then \<lparr>ret = - 1, err = 9, out_handle = 0, out_pitch = 0, out_size = 0\<rparr>
          else \<lparr>ret = 0, err = 0, out_handle = (if fd = 10 then 1 else 2), out_pitch = 0,
                 out_size = 0\<rparr>
      | _ \<Rightarrow> \<lparr>ret = 0, err = 0, out_handle = 0, out_pitch = 0, out_size = 0\<rparr>)"


definition two_handle_cache :: cache_state where
  "two_handle_cache =
     \<lparr>the_driver = \<lparr>combos = [], mappings = [\<lparr>vma = 0\<rparr>, \<lparr>vma = 1\<rparr>],
                     buffer_table = Map.empty\<rparr>,
      vmas = [0 \<mapsto> \<lparr>handle = 1, refcount = 1\<rparr>, 1 \<mapsto> \<lparr>handle = 2, refcount = 1\<rparr>],
      unmaps = []\<rparr>"

section \<open>Facts about the layout catalog and the layout loop\<close>

lemmas layout_defs = packed_1bpp_layout_def packed_2bpp_layout_def packed_3bpp_layout_def
  packed_4bpp_layout_def packed_8bpp_layout_def biplanar_yuv_420_layout_def
  triplanar_yuv_420_layout_def biplanar_yuv_p010_layout_def

lemma layout_cases:
  assumes "layout_from_format fmt = Some l"
  shows "l = packed_1bpp_layout \<or> l = packed_2bpp_layout \<or> l = packed_3bpp_layout \<or>
         l = packed_4bpp_layout \<or> l = packed_8bpp_layout \<or> l = biplanar_yuv_420_layout \<or>
         l = triplanar_yuv_420_layout \<or> l = biplanar_yuv_p010_layout"
  using assms by (cases fmt) simp_all

lemma layout_num_planes:
  assumes "layout_from_format fmt = Some l"
  shows "0 < planar_layout.num_planes l \<and> planar_layout.num_planes l \<le> 3"
  using layout_cases [OF assms] by (auto simp: layout_defs)

lemma layout_vertical_subsampling:
  assumes "layout_from_format fmt = Some l" and "p < planar_layout.num_planes l"
  shows "vertical_subsampling l ! p = (if p = 0 then 1 else 2)"
  using layout_cases [OF assms(1)] assms(2) by (auto simp: layout_defs less_Suc_eq numeral_3_eq_3 numeral_2_eq_2)

lemma num_planes_zero_iff:
  "drv_num_planes_from_format fmt = 0 \<longleftrightarrow> layout_from_format fmt = None"
  using layout_num_planes [of fmt]
  by (auto simp: drv_num_planes_from_format_def split: option.splits)



lemma fill_plane_result:
  assumes l: "layout_from_format fmt = Some l" and p: "p < planar_layout.num_planes l"
  shows "fill_plane stride ah fmt padding p off b =
     Inr (b\<lparr>meta := (meta b)\<lparr>
            strides := (strides (meta b))[p := subsample_stride stride fmt p],
            sizes := (sizes (meta b))[p :=
               (strides (meta b))[p := subsample_stride stride fmt p] ! p *
                 DIV_ROUND_UP ah (word_of_int (vertical_subsampling l ! p)) + padding ! p],
            offsets := (offsets (meta b))[p := off]\<rparr>\<rparr>,
          off + (sizes (meta b))[p :=
               (strides (meta b))[p := subsample_stride stride fmt p] ! p *
                 DIV_ROUND_UP ah (word_of_int (vertical_subsampling l ! p)) + padding ! p] ! p)"
  using l p
  by (simp add: fill_plane_def drv_size_from_format_def drv_height_from_format_def Let_def)


lemma fill_planes_result:
  assumes l: "layout_from_format fmt = Some l"
    and n: "n \<le> planar_layout.num_planes l"
    and ok: "bo_arrays_ok b"
    and pn: "p \<le> n"
  shows "\<exists>b'. fill_planes stride ah fmt padding n p off b =
            Inr (b', off + (\<Sum>j = p..<n. subsample_stride stride fmt j *
                   DIV_ROUND_UP ah (word_of_int (vertical_subsampling l ! j)) + padding ! j)) \<and>
          bo_arrays_ok b' \<and> handles b' = handles b \<and>
          height (meta b') = height (meta b) \<and>
          bo_metadata.tiling (meta b') = bo_metadata.tiling (meta b) \<and>
          num_planes (meta b') = num_planes (meta b) \<and>
          (\<forall>q<p. strides (meta b') ! q = strides (meta b) ! q \<and>
                 sizes (meta b') ! q = sizes (meta b) ! q \<and>
                 offsets (meta b') ! q = offsets (meta b) ! q) \<and>
          (\<forall>q. p \<le> q \<and> q < n \<longrightarrow>
             strides (meta b') ! q = subsample_stride stride fmt q \<and>
             sizes (meta b') ! q = subsample_stride stride fmt q *
                   DIV_ROUND_UP ah (word_of_int (vertical_subsampling l ! q)) + padding ! q \<and>
             offsets (meta b') ! q = off + (\<Sum>j = p..<q. subsample_stride stride fmt j *
                   DIV_ROUND_UP ah (word_of_int (vertical_subsampling l ! j)) + padding ! j))"
  using ok pn
proof (induction "n - p" arbitrary: p off b)
  case 0
  then have "p = n" by simp
  then show ?case using "0.prems" by (auto simp: fill_planes.simps)
next
  case (Suc d)
  then have pn: "p < n" by simp
  have p4: "p < DRV_MAX_PLANES"
    using pn n layout_num_planes [OF l] by (simp add: DRV_MAX_PLANES_def)
  let ?Z = "\<lambda>j. subsample_stride stride fmt j *
                   DIV_ROUND_UP ah (word_of_int (vertical_subsampling l ! j)) + padding ! j"
  let ?b1 = "b\<lparr>meta := (meta b)\<lparr>
            strides := (strides (meta b))[p := subsample_stride stride fmt p],
            sizes := (sizes (meta b))[p := ?Z p],
            offsets := (offsets (meta b))[p := off]\<rparr>\<rparr>"
  have step: "fill_plane stride ah fmt padding p off b = Inr (?b1, off + ?Z p)"
    using fill_plane_result [OF l, of p stride ah padding off b] pn n p4 Suc.prems(1)
    by (simp add: bo_arrays_ok_def)
  have ok1: "bo_arrays_ok ?b1" using Suc.prems(1) by (simp add: bo_arrays_ok_def)
  have d: "d = n - Suc p" using Suc.hyps(2) by simp
  have le: "Suc p \<le> n" using pn by simp
  from Suc.hyps(1) [OF d ok1 le, of "off + ?Z p"]
  obtain b' where b': "fill_planes stride ah fmt padding n (Suc p) (off + ?Z p) ?b1 =
            Inr (b', off + ?Z p + (\<Sum>j = Suc p..<n. ?Z j))"
     and rest: "bo_arrays_ok b'" "handles b' = handles ?b1"
          "height (meta b') = height (meta ?b1)"
          "bo_metadata.tiling (meta b') = bo_metadata.tiling (meta ?b1)"
          "num_planes (meta b') = num_planes (meta ?b1)"
     and before: "\<forall>q<Suc p. strides (meta b') ! q = strides (meta ?b1) ! q \<and>
                 sizes (meta b') ! q = sizes (meta ?b1) ! q \<and>
                 offsets (meta b') ! q = offsets (meta ?b1) ! q"
     and after: "\<forall>q. Suc p \<le> q \<and> q < n \<longrightarrow>
             strides (meta b') ! q = subsample_stride stride fmt q \<and>
             sizes (meta b') ! q = ?Z q \<and>
             offsets (meta b') ! q = off + ?Z p + (\<Sum>j = Suc p..<q. ?Z j)"
    by blast
  have sum_n: "(\<Sum>j = p..<n. ?Z j) = ?Z p + (\<Sum>j = Suc p..<n. ?Z j)"
    using pn by (simp add: sum.atLeast_Suc_lessThan)
  have run: "fill_planes stride ah fmt padding n p off b =
     Inr (b', off + (\<Sum>j = p..<n. ?Z j))"
    using pn step b' sum_n by (subst fill_planes.simps) (simp add: add.assoc)
  have len: "p < length (strides (meta b))" "p < length (sizes (meta b))"
       "p < length (offsets (meta b))"
    using p4 Suc.prems(1) by (simp_all add: bo_arrays_ok_def)
  have A: "\<forall>q<p. strides (meta b') ! q = strides (meta b) ! q \<and>
                 sizes (meta b') ! q = sizes (meta b) ! q \<and>
                 offsets (meta b') ! q = offsets (meta b) ! q"
    using before by simp
  have B: "\<forall>q. p \<le> q \<and> q < n \<longrightarrow>
             strides (meta b') ! q = subsample_stride stride fmt q \<and>
             sizes (meta b') ! q = ?Z q \<and>
             offsets (meta b') ! q = off + (\<Sum>j = p..<q. ?Z j)"
  proof (intro allI impI)
    fix q assume q: "p \<le> q \<and> q < n"
    show "strides (meta b') ! q = subsample_stride stride fmt q \<and>
             sizes (meta b') ! q = ?Z q \<and>
             offsets (meta b') ! q = off + (\<Sum>j = p..<q. ?Z j)"
    proof (cases "q = p")
      case True
      then show ?thesis using before len by simp
    next
      case False
      then have q': "Suc p \<le> q \<and> q < n" using q by simp
      have "(\<Sum>j = p..<q. ?Z j) = ?Z p + (\<Sum>j = Suc p..<q. ?Z j)"
        using q' by (simp add: sum.atLeast_Suc_lessThan)
      then show ?thesis using after q' by (simp add: add.assoc)
    qed
  qed
  show ?case
    using run rest A B by simp
qed

lemma bo_from_format_and_padding_result:
  assumes l: "layout_from_format fmt = Some l"
    and ok: "bo_arrays_ok b"
    and android: "fmt = DRM_FORMAT_YVU420_ANDROID \<longrightarrow>
                    ah = height (meta b) \<and> stride = ALIGN stride 32"
  shows "\<exists>b'. drv_bo_from_format_and_padding b stride ah fmt padding = Inr b' \<and>
          bo_arrays_ok b' \<and> handles b' = handles b \<and>
          height (meta b') = height (meta b) \<and>
          bo_metadata.tiling (meta b') = bo_metadata.tiling (meta b) \<and>
          num_planes (meta b') = num_planes (meta b) \<and>
          total_size (meta b') = ucast (\<Sum>j<planar_layout.num_planes l.
             subsample_stride stride fmt j *
               DIV_ROUND_UP ah (word_of_int (vertical_subsampling l ! j)) + padding ! j) \<and>
          (\<forall>q<planar_layout.num_planes l.
             strides (meta b') ! q = subsample_stride stride fmt q \<and>
             sizes (meta b') ! q = subsample_stride stride fmt q *
                   DIV_ROUND_UP ah (word_of_int (vertical_subsampling l ! q)) + padding ! q \<and>
             offsets (meta b') ! q = (\<Sum>j<q. subsample_stride stride fmt j *
                   DIV_ROUND_UP ah (word_of_int (vertical_subsampling l ! j)) + padding ! j))"
proof -
  let ?n = "planar_layout.num_planes l"
  let ?Z = "\<lambda>j. subsample_stride stride fmt j *
                   DIV_ROUND_UP ah (word_of_int (vertical_subsampling l ! j)) + padding ! j"
  have n: "drv_num_planes_from_format fmt = ?n" "?n \<noteq> 0"
    using l layout_num_planes [OF l] by (simp_all add: drv_num_planes_from_format_def)
  from fill_planes_result [OF l order_refl ok le0, of stride ah padding 0]
  obtain b1 where big: "fill_planes stride ah fmt padding ?n 0 0 b = Inr (b1, 0 + (\<Sum>j = 0..<?n. ?Z j)) \<and>
          bo_arrays_ok b1 \<and> handles b1 = handles b \<and>
          height (meta b1) = height (meta b) \<and>
          bo_metadata.tiling (meta b1) = bo_metadata.tiling (meta b) \<and>
          num_planes (meta b1) = num_planes (meta b) \<and>
          (\<forall>q<0. strides (meta b1) ! q = strides (meta b) ! q \<and>
                 sizes (meta b1) ! q = sizes (meta b) ! q \<and>
                 offsets (meta b1) ! q = offsets (meta b) ! q) \<and>
          (\<forall>q. 0 \<le> q \<and> q < ?n \<longrightarrow>
             strides (meta b1) ! q = subsample_stride stride fmt q \<and>
             sizes (meta b1) ! q = ?Z q \<and>
             offsets (meta b1) ! q = 0 + (\<Sum>j = 0..<q. ?Z j))" ..
  from big have run: "fill_planes stride ah fmt padding ?n 0 0 b = Inr (b1, (\<Sum>j<?n. ?Z j))"
    by (simp add: atLeast0LessThan)
  from big have rest: "bo_arrays_ok b1" "handles b1 = handles b" "height (meta b1) = height (meta b)"
      "bo_metadata.tiling (meta b1) = bo_metadata.tiling (meta b)"
      "num_planes (meta b1) = num_planes (meta b)"
    by simp_all
  from big have planes: "\<forall>q<?n.
             strides (meta b1) ! q = subsample_stride stride fmt q \<and>
             sizes (meta b1) ! q = ?Z q \<and>
             offsets (meta b1) ! q = (\<Sum>j<q. ?Z j)"
    by (simp add: atLeast0LessThan)
  have res: "drv_bo_from_format_and_padding b stride ah fmt padding =
          Inr (b1\<lparr>meta := (meta b1)\<lparr>total_size := ucast (\<Sum>j<?n. ?Z j)\<rparr>\<rparr>)"
    using n android by (simp add: drv_bo_from_format_and_padding_def Let_def run)
  show ?thesis
    unfolding res using rest planes by (simp add: bo_arrays_ok_def)
qed

lemma nat_ceiling_div:
  fixes a d :: nat
  assumes "0 < d"
  shows "int ((a + d - 1) div d) = \<lceil>real a / real d\<rceil>"
proof -
  let ?q = "(a + d - 1) div d"
  let ?r = "(a + d - 1) mod d"
  have eq: "a + d - 1 = ?q * d + ?r" by simp
  have r: "?r < d" using assms by simp
  have up: "a \<le> ?q * d" using eq r assms by linarith
  have lo: "?q * d < a + d" using eq assms by linarith
  have "real a / real d \<le> real ?q"
    using up assms by (simp add: pos_divide_le_eq flip: of_nat_mult)
  moreover have "real ?q - 1 < real a / real d"
  proof -
    have "real (?q * d) < real (a + d)" using lo by (simp only: of_nat_less_iff)
    then have "(real ?q - 1) * real d < real a" by (simp add: algebra_simps)
    then show ?thesis using assms by (simp add: pos_less_divide_eq)
  qed
  ultimately have "\<lceil>real a / real d\<rceil> = int ?q"
    by (intro ceiling_unique) simp_all
  then show ?thesis by simp
qed

lemma unat_DIV_ROUND_UP:
  assumes "unat n + unat d \<le> 2 ^ 32" and "d \<noteq> 0"
  shows "unat (DIV_ROUND_UP n d) = (unat n + unat d - 1) div unat d"
proof -
  have d: "0 < unat d" using assms(2) by (simp add: unat_gt_0)
  have "unat (d - 1) = unat d - 1" using assms(2) by (simp add: unat_minus_one)
  then have "unat n + unat (d - 1) < 2 ^ 32" using assms(1) d by simp
  then have "unat (n + (d - 1)) = unat n + unat (d - 1)"
    by (simp add: unat_add_lem [THEN iffD1])
  then have "unat (n + d - 1) = unat n + unat d - 1"
    using \<open>unat (d - 1) = unat d - 1\<close> d by (simp add: add_diff_eq [symmetric])
  then show ?thesis by (simp add: DIV_ROUND_UP_def unat_div)
qed

lemma DIV_ROUND_UP_ceiling:
  assumes "unat n + unat d \<le> 2 ^ 32" and "d \<noteq> 0"
  shows "int (unat (DIV_ROUND_UP n d)) = \<lceil>real (unat n) / real (unat d)\<rceil>"
  using unat_DIV_ROUND_UP [OF assms] nat_ceiling_div [of "unat d" "unat n"] assms(2)
  by (simp add: unat_gt_0)

lemma unat_sum_no_overflow:
  fixes f :: "nat \<Rightarrow> u32"
  shows "(\<Sum>j<n. unat (f j)) < 2 ^ 32 \<Longrightarrow> unat (\<Sum>j<n. f j) = (\<Sum>j<n. unat (f j))"
proof (induction n)
  case 0
  then show ?case by simp
next
  case (Suc n)
  then have "unat (\<Sum>j<n. f j) = (\<Sum>j<n. unat (f j))" by simp
  moreover from Suc.prems have "(\<Sum>j<n. unat (f j)) + unat (f n) < 2 ^ 32" by simp
  ultimately show ?case by (simp add: unat_add_lem [THEN iffD1])
qed

lemma nat_prefix_sum_le:
  fixes g :: "nat \<Rightarrow> nat"
  shows "p \<le> q \<Longrightarrow> (\<Sum>j<p. g j) \<le> (\<Sum>j<q. g j)"
  by (rule sum_mono2) auto

lemma zeroed_bo_ok: "bo_arrays_ok (zeroed_bo h n)"
  by (simp add: zeroed_bo_def bo_arrays_ok_def DRV_MAX_PLANES_def)

lemma unat_ucast_u32_u64: "unat (ucast w :: u64) = unat (w :: u32)"
proof -
  have "unat w < 2 ^ 32" using unsigned_less [of w] by simp
  then have "unat w < 2 ^ 64" by simp
  then show ?thesis by (simp add: unsigned_ucast_eq take_bit_nat_eq_self)
qed

text \<open>
  Claim C1, as amended. For a supported format (and, for the Android YV12 format, arguments
  that pass its two assertions), \<^verbatim>\<open>drv_bo_from_format_and_padding\<close> returns, the first
  offset is 0, every plane's offset is the sum of the sizes of the planes before it and the
  total size is the sum of all plane sizes, where the sums are those of \<^verbatim>\<open>uint32_t\<close>
  arithmetic and wrap around at \<open>2 ^ 32\<close>. When the plane sizes add up to less than
  \<open>2 ^ 32\<close>, the same equations hold for the numbers themselves and the offsets do not
  decrease from one plane to the next.
\<close>

theorem bo_layout_offsets_sum:
  assumes supported: "layout_from_format fmt \<noteq> None"
    and arrays: "bo_arrays_ok b" "length padding = DRV_MAX_PLANES"
    and android: "fmt = DRM_FORMAT_YVU420_ANDROID \<longrightarrow>
                    ah = height (meta b) \<and> stride = ALIGN stride 32"
  shows "\<exists>b'. drv_bo_from_format_and_padding b stride ah fmt padding = Inr b' \<and>
     offsets (meta b') ! 0 = 0 \<and>
     (\<forall>p<drv_num_planes_from_format fmt.
        offsets (meta b') ! p = (\<Sum>j<p. sizes (meta b') ! j)) \<and>
     total_size (meta b') = ucast (\<Sum>j<drv_num_planes_from_format fmt. sizes (meta b') ! j) \<and>
     ((\<Sum>j<drv_num_planes_from_format fmt. unat (sizes (meta b') ! j)) < 2 ^ 32 \<longrightarrow>
        unat (total_size (meta b')) =
          (\<Sum>j<drv_num_planes_from_format fmt. unat (sizes (meta b') ! j)) \<and>
        (\<forall>p<drv_num_planes_from_format fmt.
           unat (offsets (meta b') ! p) = (\<Sum>j<p. unat (sizes (meta b') ! j))) \<and>
        (\<forall>p q. p \<le> q \<and> q < drv_num_planes_from_format fmt \<longrightarrow>
           offsets (meta b') ! p \<le> offsets (meta b') ! q))"
proof -
  from supported obtain l where l: "layout_from_format fmt = Some l" by auto
  let ?n = "planar_layout.num_planes l"
  let ?Z = "\<lambda>j. subsample_stride stride fmt j *
                   DIV_ROUND_UP ah (word_of_int (vertical_subsampling l ! j)) + padding ! j"
  have n: "drv_num_planes_from_format fmt = ?n" "0 < ?n"
    using l layout_num_planes [OF l] by (simp_all add: drv_num_planes_from_format_def)
  from bo_from_format_and_padding_result [OF l arrays(1) android, of padding]
  obtain b' where res: "drv_bo_from_format_and_padding b stride ah fmt padding = Inr b'"
    and tot: "total_size (meta b') = ucast (\<Sum>j<?n. ?Z j)"
    and planes: "\<forall>q<?n. strides (meta b') ! q = subsample_stride stride fmt q \<and>
             sizes (meta b') ! q = ?Z q \<and> offsets (meta b') ! q = (\<Sum>j<q. ?Z j)"
    by (elim exE conjE)
  let ?s = "\<lambda>j. sizes (meta b') ! j"
  have sz: "?s j = ?Z j" if "j < ?n" for j using planes that by simp
  have off: "offsets (meta b') ! p = (\<Sum>j<p. ?s j)" if "p < ?n" for p
  proof -
    have "(\<Sum>j<p. ?s j) = (\<Sum>j<p. ?Z j)"
      using that by (intro sum.cong) (auto simp: sz)
    then show ?thesis using planes that by simp
  qed
  have tot': "total_size (meta b') = ucast (\<Sum>j<?n. ?s j)"
  proof -
    have "(\<Sum>j<?n. ?s j) = (\<Sum>j<?n. ?Z j)"
      by (intro sum.cong) (auto simp: sz)
    then show ?thesis using tot by simp
  qed
  have off0: "offsets (meta b') ! 0 = 0" using off [of 0] n by simp
  have exact: "unat (total_size (meta b')) = (\<Sum>j<?n. unat (?s j)) \<and>
        (\<forall>p<?n. unat (offsets (meta b') ! p) = (\<Sum>j<p. unat (?s j))) \<and>
        (\<forall>p q. p \<le> q \<and> q < ?n \<longrightarrow> offsets (meta b') ! p \<le> offsets (meta b') ! q)"
    if small: "(\<Sum>j<?n. unat (?s j)) < 2 ^ 32"
  proof -
    have pre: "(\<Sum>j<p. unat (?s j)) < 2 ^ 32" if "p \<le> ?n" for p
      using nat_prefix_sum_le [OF that, of "\<lambda>j. unat (?s j)"] small by simp
    have uoff: "unat (offsets (meta b') ! p) = (\<Sum>j<p. unat (?s j))" if "p < ?n" for p
      using off [OF that] unat_sum_no_overflow [OF pre, of p] that by simp
    have "unat (\<Sum>j<?n. ?s j) = (\<Sum>j<?n. unat (?s j))"
      using unat_sum_no_overflow [OF small] .
    moreover have "unat (ucast w :: u64) = unat w" for w :: u32
      by (rule unat_ucast_u32_u64)
    ultimately have utot: "unat (total_size (meta b')) = (\<Sum>j<?n. unat (?s j))"
      using tot' by simp
    have mono: "offsets (meta b') ! p \<le> offsets (meta b') ! q" if "p \<le> q \<and> q < ?n" for p q
    proof -
      have "unat (offsets (meta b') ! p) \<le> unat (offsets (meta b') ! q)"
        using that uoff [of p] uoff [of q] nat_prefix_sum_le [of p q "\<lambda>j. unat (?s j)"]
        by simp
      then show ?thesis by (simp add: word_le_nat_alt)
    qed
    show ?thesis using utot uoff mono by blast
  qed
  show ?thesis
    using res off0 off tot' exact unfolding n(1) by blast
qed

text \<open>
  Claim C1 as stated fails where the sums wrap around. For the three-plane format YVU420 with
  stride 65536, aligned height 61440 and no padding, the call returns with offsets
  0, 4026531840 and 738197504, so the offset of plane 2 is below that of plane 1, and the
  total size 1744830464 is not the sum of the three plane sizes.
\<close>

theorem bo_layout_offsets_counterexample:
  "\<not> isl (drv_bo_from_format_and_padding (zeroed_bo 0 3) 65536 61440 DRM_FORMAT_YVU420 [0, 0, 0, 0]) \<and>
   \<not> offsets (meta (projr (drv_bo_from_format_and_padding (zeroed_bo 0 3) 65536 61440
          DRM_FORMAT_YVU420 [0, 0, 0, 0]))) ! 1
      \<le> offsets (meta (projr (drv_bo_from_format_and_padding (zeroed_bo 0 3) 65536 61440
          DRM_FORMAT_YVU420 [0, 0, 0, 0]))) ! 2 \<and>
   unat (total_size (meta (projr (drv_bo_from_format_and_padding (zeroed_bo 0 3) 65536 61440
          DRM_FORMAT_YVU420 [0, 0, 0, 0]))))
     \<noteq> unat (sizes (meta (projr (drv_bo_from_format_and_padding (zeroed_bo 0 3) 65536 61440
            DRM_FORMAT_YVU420 [0, 0, 0, 0]))) ! 0)
       + unat (sizes (meta (projr (drv_bo_from_format_and_padding (zeroed_bo 0 3) 65536 61440
            DRM_FORMAT_YVU420 [0, 0, 0, 0]))) ! 1)
       + unat (sizes (meta (projr (drv_bo_from_format_and_padding (zeroed_bo 0 3) 65536 61440
            DRM_FORMAT_YVU420 [0, 0, 0, 0]))) ! 2)"
proof -
  have "drv_bo_from_format_and_padding (zeroed_bo 0 3) 65536 61440 DRM_FORMAT_YVU420 [0, 0, 0, 0]
   = Inr \<lparr> meta = \<lparr> height = 0, tiling = 0, num_planes = 3,
       offsets = [0, 4026531840, 738197504, 0], sizes = [4026531840, 1006632960, 1006632960, 0],
       strides = [65536, 32768, 32768, 0], total_size = 1744830464 \<rparr>,
     handles = [0, 0, 0, 0] \<rparr>"
    by code_simp
  then show ?thesis by simp
qed

lemma nv12_1920_1080:
  "drv_bo_from_format_and_padding (zeroed_bo 1080 2) 1920 1080 DRM_FORMAT_NV12 [0, 0, 0, 0]
   = Inr \<lparr> meta = \<lparr> height = 1080, tiling = 0, num_planes = 2,
       offsets = [0, 2073600, 0, 0], sizes = [2073600, 1036800, 0, 0],
       strides = [1920, 1920, 0, 0], total_size = 3110400 \<rparr>,
     handles = [0, 0, 0, 0] \<rparr>"
  by code_simp

lemma nv12_planes: "drv_num_planes_from_format DRM_FORMAT_NV12 = 2"
  by (simp add: drv_num_planes_from_format_def layout_defs)

text \<open>
  The hypotheses of C1 hold for NV12 at stride 1920 and height 1080, where nothing wraps
  around.
\<close>

theorem bo_layout_offsets_sum_witness:
  "layout_from_format DRM_FORMAT_NV12 \<noteq> None \<and> bo_arrays_ok (zeroed_bo 1080 2) \<and>
   length [0, 0, 0, 0 :: u32] = DRV_MAX_PLANES \<and>
   (\<exists>b'. drv_bo_from_format_and_padding (zeroed_bo 1080 2) 1920 1080 DRM_FORMAT_NV12 [0, 0, 0, 0]
            = Inr b' \<and>
      unat (sizes (meta b') ! 0) + unat (sizes (meta b') ! 1) < 2 ^ 32 \<and>
      offsets (meta b') ! 0 = 0 \<and> offsets (meta b') ! 1 = sizes (meta b') ! 0 \<and>
      unat (total_size (meta b')) = unat (sizes (meta b') ! 0) + unat (sizes (meta b') ! 1) \<and>
      offsets (meta b') ! 0 \<le> offsets (meta b') ! 1)"
proof -
  have h: "layout_from_format DRM_FORMAT_NV12 \<noteq> None" "bo_arrays_ok (zeroed_bo 1080 2)"
    "length [0, 0, 0, 0 :: u32] = DRV_MAX_PLANES"
    "DRM_FORMAT_NV12 = DRM_FORMAT_YVU420_ANDROID \<longrightarrow>
       (1080 :: u32) = height (meta (zeroed_bo 1080 2)) \<and> (1920 :: u32) = ALIGN 1920 32"
    by (simp_all add: zeroed_bo_ok DRV_MAX_PLANES_def)
  from bo_layout_offsets_sum [OF h]
  obtain b' where b': "drv_bo_from_format_and_padding (zeroed_bo 1080 2) 1920 1080 DRM_FORMAT_NV12
         [0, 0, 0, 0] = Inr b'"
    and off: "\<forall>p<drv_num_planes_from_format DRM_FORMAT_NV12.
        offsets (meta b') ! p = (\<Sum>j<p. sizes (meta b') ! j)"
    and ex: "(\<Sum>j<drv_num_planes_from_format DRM_FORMAT_NV12. unat (sizes (meta b') ! j)) < 2 ^ 32 \<longrightarrow>
        unat (total_size (meta b')) =
          (\<Sum>j<drv_num_planes_from_format DRM_FORMAT_NV12. unat (sizes (meta b') ! j)) \<and>
        (\<forall>p<drv_num_planes_from_format DRM_FORMAT_NV12.
           unat (offsets (meta b') ! p) = (\<Sum>j<p. unat (sizes (meta b') ! j))) \<and>
        (\<forall>p q. p \<le> q \<and> q < drv_num_planes_from_format DRM_FORMAT_NV12 \<longrightarrow>
           offsets (meta b') ! p \<le> offsets (meta b') ! q)"
    by (elim exE conjE)
  have val: "sizes (meta b') = [2073600, 1036800, 0, 0]"
    using b' nv12_1920_1080 by auto
  have small: "unat (sizes (meta b') ! 0) + unat (sizes (meta b') ! 1) < 2 ^ 32"
    by (simp add: val)
  then have small': "(\<Sum>j<drv_num_planes_from_format DRM_FORMAT_NV12. unat (sizes (meta b') ! j)) < 2 ^ 32"
    by (simp add: nv12_planes numeral_2_eq_2)
  from off have o: "offsets (meta b') ! 0 = 0" "offsets (meta b') ! 1 = sizes (meta b') ! 0"
    by (simp_all add: nv12_planes numeral_2_eq_2)
  from ex small' have t: "unat (total_size (meta b')) = unat (sizes (meta b') ! 0) + unat (sizes (meta b') ! 1)"
    and m: "offsets (meta b') ! 0 \<le> offsets (meta b') ! 1"
    by (simp_all add: nv12_planes numeral_2_eq_2)
  show ?thesis using h(1-3) b' small o t m by blast
qed

lemma vertical_subsampling_query:
  assumes l: "layout_from_format fmt = Some l" and p: "p < planar_layout.num_planes l"
  shows "drv_vertical_subsampling_from_format fmt p = Inr (if p = 0 then 1 else 2)"
    and "word_of_int (vertical_subsampling l ! p) = (if p = 0 then 1 else 2 :: u32)"
  using l p layout_vertical_subsampling [OF l p]
  by (simp_all add: drv_vertical_subsampling_from_format_def)

text \<open>
  Claim C2, as amended. For a supported format, the stride of plane \<open>p\<close> is
  \<^verbatim>\<open>DIV_ROUND_UP(stride, 2)\<close> for the planes from 1 on of the two YVU420 formats and the base
  stride everywhere else; the size of plane \<open>p\<close> is its stride times
  \<^verbatim>\<open>DIV_ROUND_UP(aligned_height, vertical_subsampling[p])\<close> plus its padding, all in
  \<^verbatim>\<open>uint32_t\<close> arithmetic, so the size is the product plus the padding modulo \<open>2 ^ 32\<close>.
  \<^verbatim>\<open>DIV_ROUND_UP(n, d)\<close> is the quotient rounded up, \<open>\<lceil>n / d\<rceil>\<close>, as long as
  \<open>n + d - 1\<close> does not wrap around. For a plane with vertical subsampling 2 and height
  1080, the plane height is 540.
\<close>

theorem bo_layout_plane_stride_size:
  assumes supported: "layout_from_format fmt \<noteq> None"
    and arrays: "bo_arrays_ok b" "length padding = DRV_MAX_PLANES"
    and android: "fmt = DRM_FORMAT_YVU420_ANDROID \<longrightarrow>
                    ah = height (meta b) \<and> stride = ALIGN stride 32"
  shows "\<exists>b'. drv_bo_from_format_and_padding b stride ah fmt padding = Inr b' \<and>
     (\<forall>p<drv_num_planes_from_format fmt.
        strides (meta b') ! p =
          (if 1 \<le> p \<and> (fmt = DRM_FORMAT_YVU420 \<or> fmt = DRM_FORMAT_YVU420_ANDROID)
           then DIV_ROUND_UP stride 2 else stride) \<and>
        (\<exists>vs. drv_vertical_subsampling_from_format fmt p = Inr vs \<and>
           sizes (meta b') ! p = strides (meta b') ! p * DIV_ROUND_UP ah vs + padding ! p \<and>
           unat (sizes (meta b') ! p) =
             (unat (strides (meta b') ! p) * unat (DIV_ROUND_UP ah vs) + unat (padding ! p))
               mod 2 ^ 32 \<and>
           (unat ah + unat vs \<le> 2 ^ 32 \<longrightarrow>
              int (unat (DIV_ROUND_UP ah vs)) = \<lceil>real (unat ah) / real (unat vs)\<rceil>))) \<and>
     (unat stride + 2 \<le> 2 ^ 32 \<longrightarrow>
        int (unat (DIV_ROUND_UP stride 2)) = \<lceil>real (unat stride) / 2\<rceil>) \<and>
     (drv_vertical_subsampling_from_format fmt' p' = Inr 2 \<longrightarrow>
        drv_height_from_format fmt' 1080 p' = Inr 540)"
proof -
  from supported obtain l where l: "layout_from_format fmt = Some l" by auto
  let ?n = "planar_layout.num_planes l"
  let ?Z = "\<lambda>j. subsample_stride stride fmt j *
                   DIV_ROUND_UP ah (word_of_int (vertical_subsampling l ! j)) + padding ! j"
  have n: "drv_num_planes_from_format fmt = ?n"
    using l by (simp add: drv_num_planes_from_format_def)
  from bo_from_format_and_padding_result [OF l arrays(1) android, of padding]
  obtain b' where res: "drv_bo_from_format_and_padding b stride ah fmt padding = Inr b'"
    and planes: "\<forall>q<?n. strides (meta b') ! q = subsample_stride stride fmt q \<and>
             sizes (meta b') ! q = ?Z q \<and> offsets (meta b') ! q = (\<Sum>j<q. ?Z j)"
    by (elim exE conjE)
  have per_plane: "strides (meta b') ! p =
          (if 1 \<le> p \<and> (fmt = DRM_FORMAT_YVU420 \<or> fmt = DRM_FORMAT_YVU420_ANDROID)
           then DIV_ROUND_UP stride 2 else stride) \<and>
        (\<exists>vs. drv_vertical_subsampling_from_format fmt p = Inr vs \<and>
           sizes (meta b') ! p = strides (meta b') ! p * DIV_ROUND_UP ah vs + padding ! p \<and>
           unat (sizes (meta b') ! p) =
             (unat (strides (meta b') ! p) * unat (DIV_ROUND_UP ah vs) + unat (padding ! p))
               mod 2 ^ 32 \<and>
           (unat ah + unat vs \<le> 2 ^ 32 \<longrightarrow>
              int (unat (DIV_ROUND_UP ah vs)) = \<lceil>real (unat ah) / real (unat vs)\<rceil>))"
    if p: "p < ?n" for p
  proof -
    let ?vs = "if p = 0 then 1 else 2 :: u32"
    have vs: "drv_vertical_subsampling_from_format fmt p = Inr ?vs"
      "word_of_int (vertical_subsampling l ! p) = ?vs"
      using vertical_subsampling_query [OF l p] by simp_all
    have st: "strides (meta b') ! p =
          (if 1 \<le> p \<and> (fmt = DRM_FORMAT_YVU420 \<or> fmt = DRM_FORMAT_YVU420_ANDROID)
           then DIV_ROUND_UP stride 2 else stride)"
      using planes p by (auto simp: subsample_stride_def)
    have sz: "sizes (meta b') ! p = strides (meta b') ! p * DIV_ROUND_UP ah ?vs + padding ! p"
      using planes p vs(2) by simp
    have usz: "unat (sizes (meta b') ! p) =
             (unat (strides (meta b') ! p) * unat (DIV_ROUND_UP ah ?vs) + unat (padding ! p))
               mod 2 ^ 32"
      unfolding sz by (simp add: unat_word_ariths mod_simps)
    have nz: "?vs \<noteq> 0" by simp
    have ceil: "unat ah + unat ?vs \<le> 2 ^ 32 \<longrightarrow>
              int (unat (DIV_ROUND_UP ah ?vs)) = \<lceil>real (unat ah) / real (unat ?vs)\<rceil>"
      using DIV_ROUND_UP_ceiling [of ah ?vs, OF _ nz] by blast
    show ?thesis using vs(1) st sz usz ceil by blast
  qed
  have half: "unat stride + 2 \<le> 2 ^ 32 \<longrightarrow>
        int (unat (DIV_ROUND_UP stride 2)) = \<lceil>real (unat stride) / 2\<rceil>"
    using DIV_ROUND_UP_ceiling [of stride 2] by simp
  have ex: "drv_vertical_subsampling_from_format fmt' p' = Inr 2 \<longrightarrow>
        drv_height_from_format fmt' 1080 p' = Inr 540"
    by (auto simp: drv_vertical_subsampling_from_format_def drv_height_from_format_def
          DIV_ROUND_UP_def split: option.splits if_splits)
  show ?thesis
    using res per_plane half ex unfolding n by blast
qed

text \<open>
  Claim C2 as stated fails at the edge of \<^verbatim>\<open>uint32_t\<close>. For NV12 with stride 3 and aligned
  height \<open>2 ^ 32 - 1\<close>, the size of plane 0 is not \<open>3 * \<lceil>(2 ^ 32 - 1) / 1\<rceil>\<close> (the product
  wraps around), and the size of plane 1 is 0, which is not \<open>3 * \<lceil>(2 ^ 32 - 1) / 2\<rceil>\<close> even
  modulo \<open>2 ^ 32\<close> (the rounding itself wraps around).
\<close>

theorem bo_layout_plane_stride_size_counterexample:
  "\<not> isl (drv_bo_from_format_and_padding (zeroed_bo 0 2) 3 4294967295 DRM_FORMAT_NV12 [0, 0, 0, 0]) \<and>
   int (unat (sizes (meta (projr (drv_bo_from_format_and_padding (zeroed_bo 0 2) 3 4294967295
          DRM_FORMAT_NV12 [0, 0, 0, 0]))) ! 0))
     \<noteq> int (unat (strides (meta (projr (drv_bo_from_format_and_padding (zeroed_bo 0 2) 3 4294967295
            DRM_FORMAT_NV12 [0, 0, 0, 0]))) ! 0))
         * \<lceil>real (unat (4294967295 :: u32)) / 1\<rceil> + int (unat ([0, 0, 0, 0 :: u32] ! 0)) \<and>
   int (unat (sizes (meta (projr (drv_bo_from_format_and_padding (zeroed_bo 0 2) 3 4294967295
          DRM_FORMAT_NV12 [0, 0, 0, 0]))) ! 1))
     \<noteq> (int (unat (strides (meta (projr (drv_bo_from_format_and_padding (zeroed_bo 0 2) 3 4294967295
            DRM_FORMAT_NV12 [0, 0, 0, 0]))) ! 1))
         * \<lceil>real (unat (4294967295 :: u32)) / 2\<rceil> + int (unat ([0, 0, 0, 0 :: u32] ! 1)))
       mod 2 ^ 32"
proof -
  have "drv_bo_from_format_and_padding (zeroed_bo 0 2) 3 4294967295 DRM_FORMAT_NV12 [0, 0, 0, 0]
   = Inr \<lparr> meta = \<lparr> height = 0, tiling = 0, num_planes = 2,
       offsets = [0, 4294967293, 0, 0], sizes = [4294967293, 0, 0, 0],
       strides = [3, 3, 0, 0], total_size = 4294967293 \<rparr>,
     handles = [0, 0, 0, 0] \<rparr>"
    by code_simp
  then show ?thesis by simp
qed

lemma yvu420_1920_1080:
  "drv_bo_from_format_and_padding (zeroed_bo 1080 3) 1920 1080 DRM_FORMAT_YVU420 [0, 0, 0, 0]
   = Inr \<lparr> meta = \<lparr> height = 1080, tiling = 0, num_planes = 3,
       offsets = [0, 2073600, 2592000, 0], sizes = [2073600, 518400, 518400, 0],
       strides = [1920, 960, 960, 0], total_size = 3110400 \<rparr>,
     handles = [0, 0, 0, 0] \<rparr>"
  by code_simp

lemma yvu420_planes: "drv_num_planes_from_format DRM_FORMAT_YVU420 = 3"
  by (simp add: drv_num_planes_from_format_def layout_defs)

text \<open>
  The hypotheses of C2 hold for YVU420 at stride 1920 and height 1080: the chroma stride is
  960 and the chroma height 540.
\<close>

theorem bo_layout_plane_stride_size_witness:
  "layout_from_format DRM_FORMAT_YVU420 \<noteq> None \<and> bo_arrays_ok (zeroed_bo 1080 3) \<and>
   length [0, 0, 0, 0 :: u32] = DRV_MAX_PLANES \<and>
   1 < drv_num_planes_from_format DRM_FORMAT_YVU420 \<and>
   unat (1080 :: u32) + unat (2 :: u32) \<le> 2 ^ 32 \<and> unat (1920 :: u32) + 2 \<le> 2 ^ 32 \<and>
   drv_vertical_subsampling_from_format DRM_FORMAT_YVU420 1 = Inr 2 \<and>
   (\<exists>b'. drv_bo_from_format_and_padding (zeroed_bo 1080 3) 1920 1080 DRM_FORMAT_YVU420 [0, 0, 0, 0]
            = Inr b' \<and>
      strides (meta b') ! 1 = DIV_ROUND_UP 1920 2 \<and>
      sizes (meta b') ! 1 = strides (meta b') ! 1 * DIV_ROUND_UP 1080 2 + [0, 0, 0, 0] ! 1 \<and>
      int (unat (DIV_ROUND_UP 1080 2)) = \<lceil>real (unat (1080 :: u32)) / real (unat (2 :: u32))\<rceil> \<and>
      int (unat (DIV_ROUND_UP 1920 2)) = \<lceil>real (unat (1920 :: u32)) / 2\<rceil>) \<and>
   drv_height_from_format DRM_FORMAT_YVU420 1080 1 = Inr 540"
proof -
  have h: "layout_from_format DRM_FORMAT_YVU420 \<noteq> None" "bo_arrays_ok (zeroed_bo 1080 3)"
    "length [0, 0, 0, 0 :: u32] = DRV_MAX_PLANES"
    "DRM_FORMAT_YVU420 = DRM_FORMAT_YVU420_ANDROID \<longrightarrow>
       (1080 :: u32) = height (meta (zeroed_bo 1080 3)) \<and> (1920 :: u32) = ALIGN 1920 32"
    by (simp_all add: zeroed_bo_ok DRV_MAX_PLANES_def)
  have vs: "drv_vertical_subsampling_from_format DRM_FORMAT_YVU420 1 = Inr 2"
    by (simp add: drv_vertical_subsampling_from_format_def layout_defs)
  from bo_layout_plane_stride_size [OF h, of DRM_FORMAT_YVU420 1]
  obtain b' where b': "drv_bo_from_format_and_padding (zeroed_bo 1080 3) 1920 1080
        DRM_FORMAT_YVU420 [0, 0, 0, 0] = Inr b'"
    and planes: "\<forall>p<drv_num_planes_from_format DRM_FORMAT_YVU420.
        strides (meta b') ! p =
          (if 1 \<le> p \<and> (DRM_FORMAT_YVU420 = DRM_FORMAT_YVU420 \<or>
                          DRM_FORMAT_YVU420 = DRM_FORMAT_YVU420_ANDROID)
           then DIV_ROUND_UP 1920 2 else 1920) \<and>
        (\<exists>vs. drv_vertical_subsampling_from_format DRM_FORMAT_YVU420 p = Inr vs \<and>
           sizes (meta b') ! p = strides (meta b') ! p * DIV_ROUND_UP 1080 vs + [0, 0, 0, 0] ! p \<and>
           unat (sizes (meta b') ! p) =
             (unat (strides (meta b') ! p) * unat (DIV_ROUND_UP 1080 vs) +
              unat ([0, 0, 0, 0 :: u32] ! p)) mod 2 ^ 32 \<and>
           (unat (1080 :: u32) + unat vs \<le> 2 ^ 32 \<longrightarrow>
              int (unat (DIV_ROUND_UP 1080 vs)) = \<lceil>real (unat (1080 :: u32)) / real (unat vs)\<rceil>))"
    and half: "unat (1920 :: u32) + 2 \<le> 2 ^ 32 \<longrightarrow>
        int (unat (DIV_ROUND_UP 1920 2)) = \<lceil>real (unat (1920 :: u32)) / 2\<rceil>"
    and ex: "drv_vertical_subsampling_from_format DRM_FORMAT_YVU420 1 = Inr 2 \<longrightarrow>
        drv_height_from_format DRM_FORMAT_YVU420 1080 1 = Inr 540"
    by (elim exE conjE)
  have p1: "1 < drv_num_planes_from_format DRM_FORMAT_YVU420" by (simp add: yvu420_planes)
  from planes p1 have st: "strides (meta b') ! 1 = DIV_ROUND_UP 1920 2" by simp
  from planes p1 obtain vs' where
    vs': "drv_vertical_subsampling_from_format DRM_FORMAT_YVU420 1 = Inr vs'"
    and sz': "sizes (meta b') ! 1 = strides (meta b') ! 1 * DIV_ROUND_UP 1080 vs' + [0, 0, 0, 0] ! 1"
    and ceil': "unat (1080 :: u32) + unat vs' \<le> 2 ^ 32 \<longrightarrow>
              int (unat (DIV_ROUND_UP 1080 vs')) = \<lceil>real (unat (1080 :: u32)) / real (unat vs')\<rceil>"
    by blast
  from vs vs' have eq: "vs' = 2" by simp
  have small: "unat (1080 :: u32) + unat (2 :: u32) \<le> 2 ^ 32" "unat (1920 :: u32) + 2 \<le> 2 ^ 32"
    by simp_all
  from ceil' small(1) have c1: "int (unat (DIV_ROUND_UP 1080 2)) =
      \<lceil>real (unat (1080 :: u32)) / real (unat (2 :: u32))\<rceil>"
    unfolding eq by blast
  from half small(2) have c2: "int (unat (DIV_ROUND_UP 1920 2)) = \<lceil>real (unat (1920 :: u32)) / 2\<rceil>"
    by blast
  from ex vs have e: "drv_height_from_format DRM_FORMAT_YVU420 1080 1 = Inr 540" by blast
  show ?thesis
    using h(1-3) p1 small vs b' st sz' [unfolded eq] c1 c2 e by blast
qed

text \<open>
  Claim C10. \<^verbatim>\<open>drv_num_planes_from_format\<close> returns for every format code, and returns 0
  exactly for the formats absent from the catalog. Each of \<^verbatim>\<open>drv_stride_from_format\<close>,
  \<^verbatim>\<open>drv_height_from_format\<close>, \<^verbatim>\<open>drv_vertical_subsampling_from_format\<close> and
  \<^verbatim>\<open>drv_bytes_per_pixel_from_format\<close> (and \<^verbatim>\<open>drv_size_from_format\<close>, which calls the
  second) fails exactly when the format is unsupported or the
  plane index is not below the format's plane count; on an unsupported format the failure
  is the dereference of the null catalog entry.
\<close>

theorem geometry_queries_preconditions:
  "(drv_num_planes_from_format fmt = 0 \<longleftrightarrow> layout_from_format fmt = None) \<and>
   (isl (drv_stride_from_format fmt w plane) \<longleftrightarrow>
      \<not> (layout_from_format fmt \<noteq> None \<and> plane < drv_num_planes_from_format fmt)) \<and>
   (isl (drv_height_from_format fmt h plane) \<longleftrightarrow>
      \<not> (layout_from_format fmt \<noteq> None \<and> plane < drv_num_planes_from_format fmt)) \<and>
   (isl (drv_vertical_subsampling_from_format fmt plane) \<longleftrightarrow>
      \<not> (layout_from_format fmt \<noteq> None \<and> plane < drv_num_planes_from_format fmt)) \<and>
   (isl (drv_bytes_per_pixel_from_format fmt plane) \<longleftrightarrow>
      \<not> (layout_from_format fmt \<noteq> None \<and> plane < drv_num_planes_from_format fmt)) \<and>
   (isl (drv_size_from_format fmt stride h plane) \<longleftrightarrow>
      \<not> (layout_from_format fmt \<noteq> None \<and> plane < drv_num_planes_from_format fmt)) \<and>
   (layout_from_format fmt = None \<longrightarrow>
      drv_stride_from_format fmt w plane = Inl NullDereference \<and>
      drv_height_from_format fmt h plane = Inl NullDereference \<and>
      drv_vertical_subsampling_from_format fmt plane = Inl NullDereference \<and>
      drv_bytes_per_pixel_from_format fmt plane = Inl NullDereference)"
proof -
  have a: "drv_num_planes_from_format fmt = 0 \<longleftrightarrow> layout_from_format fmt = None"
    by (rule num_planes_zero_iff)
  have b: "isl (drv_stride_from_format fmt w plane) \<longleftrightarrow>
      \<not> (layout_from_format fmt \<noteq> None \<and> plane < drv_num_planes_from_format fmt)"
    by (auto simp: drv_stride_from_format_def drv_num_planes_from_format_def Let_def
          split: option.splits)
  have c: "isl (drv_height_from_format fmt h plane) \<longleftrightarrow>
      \<not> (layout_from_format fmt \<noteq> None \<and> plane < drv_num_planes_from_format fmt)"
    by (auto simp: drv_height_from_format_def drv_num_planes_from_format_def
          split: option.splits)
  have d: "isl (drv_vertical_subsampling_from_format fmt plane) \<longleftrightarrow>
      \<not> (layout_from_format fmt \<noteq> None \<and> plane < drv_num_planes_from_format fmt)"
    by (auto simp: drv_vertical_subsampling_from_format_def drv_num_planes_from_format_def
          split: option.splits)
  have e: "isl (drv_bytes_per_pixel_from_format fmt plane) \<longleftrightarrow>
      \<not> (layout_from_format fmt \<noteq> None \<and> plane < drv_num_planes_from_format fmt)"
    by (auto simp: drv_bytes_per_pixel_from_format_def drv_num_planes_from_format_def
          split: option.splits)
  have g: "isl (drv_size_from_format fmt stride h plane) \<longleftrightarrow>
      \<not> (layout_from_format fmt \<noteq> None \<and> plane < drv_num_planes_from_format fmt)"
    by (auto simp: drv_size_from_format_def drv_height_from_format_def
          drv_num_planes_from_format_def split: option.splits)
  have f: "layout_from_format fmt = None \<longrightarrow>
      drv_stride_from_format fmt w plane = Inl NullDereference \<and>
      drv_height_from_format fmt h plane = Inl NullDereference \<and>
      drv_vertical_subsampling_from_format fmt plane = Inl NullDereference \<and>
      drv_bytes_per_pixel_from_format fmt plane = Inl NullDereference"
    by (simp add: drv_stride_from_format_def drv_height_from_format_def
          drv_vertical_subsampling_from_format_def drv_bytes_per_pixel_from_format_def)
  show ?thesis using a b c d e f g by blast
qed

text \<open>
  C10 at an unknown format code and at NV12, planes 1 and 2.
\<close>

theorem geometry_queries_preconditions_witness:
  "layout_from_format (DRM_FORMAT_OTHER 0) = None \<and>
   drv_num_planes_from_format (DRM_FORMAT_OTHER 0) = 0 \<and>
   drv_stride_from_format (DRM_FORMAT_OTHER 0) 640 0 = Inl NullDereference \<and>
   drv_height_from_format (DRM_FORMAT_OTHER 0) 480 0 = Inl NullDereference \<and>
   drv_vertical_subsampling_from_format (DRM_FORMAT_OTHER 0) 0 = Inl NullDereference \<and>
   drv_bytes_per_pixel_from_format (DRM_FORMAT_OTHER 0) 0 = Inl NullDereference \<and>
   layout_from_format DRM_FORMAT_NV12 \<noteq> None \<and> 1 < drv_num_planes_from_format DRM_FORMAT_NV12 \<and>
   \<not> isl (drv_stride_from_format DRM_FORMAT_NV12 640 1) \<and>
   \<not> isl (drv_height_from_format DRM_FORMAT_NV12 480 1) \<and>
   \<not> isl (drv_vertical_subsampling_from_format DRM_FORMAT_NV12 1) \<and>
   \<not> isl (drv_bytes_per_pixel_from_format DRM_FORMAT_NV12 1) \<and>
   isl (drv_stride_from_format DRM_FORMAT_NV12 640 2)"
  using geometry_queries_preconditions [of "DRM_FORMAT_OTHER 0" 640 0 480 640]
    geometry_queries_preconditions [of DRM_FORMAT_NV12 640 1 480 640]
    geometry_queries_preconditions [of DRM_FORMAT_NV12 640 2 480 640]
  by (simp add: nv12_planes)

section \<open>Widening a combination\<close>

lemma modify_combination_from_nth:
  "length (modify_combination_from fmt md uf i cs) = length cs \<and>
   (\<forall>j<length cs. modify_combination_from fmt md uf i cs ! j =
      (if i \<le> j \<and> format (cs ! j) = fmt \<and>
          format_metadata.tiling (metadata (cs ! j)) = format_metadata.tiling md \<and>
          modifier (metadata (cs ! j)) = modifier md
       then (cs ! j)\<lparr>use_flags := use_flags (cs ! j) OR uf\<rparr>
       else cs ! j))"
proof (induction fmt md uf i cs rule: modify_combination_from.induct)
  case (1 fmt md uf i cs)
  show ?case
  proof (cases "i < length cs")
    case False
    then show ?thesis
      by (subst modify_combination_from.simps, subst modify_combination_from.simps)
         (simp add: drv_array_size_def)
  next
    case True
    let ?combo = "drv_array_at_idx cs i"
    let ?match = "format ?combo = fmt \<and>
           format_metadata.tiling (metadata ?combo) = format_metadata.tiling md \<and>
           modifier (metadata ?combo) = modifier md"
    have i: "i < drv_array_size cs" using True by (simp add: drv_array_size_def)
    show ?thesis
    proof (cases ?match)
      case m: True
      let ?cs' = "cs[i := ?combo\<lparr>use_flags := use_flags ?combo OR uf\<rparr>]"
      have unfold: "modify_combination_from fmt md uf i cs =
                    modify_combination_from fmt md uf (Suc i) ?cs'"
        using i m by (subst modify_combination_from.simps) (simp add: Let_def)
      from "1.IH"(1) [OF i refl m]
      have IH: "length (modify_combination_from fmt md uf (Suc i) ?cs') = length ?cs'"
        "\<forall>j<length ?cs'. modify_combination_from fmt md uf (Suc i) ?cs' ! j =
          (if Suc i \<le> j \<and> format (?cs' ! j) = fmt \<and>
              format_metadata.tiling (metadata (?cs' ! j)) = format_metadata.tiling md \<and>
              modifier (metadata (?cs' ! j)) = modifier md
           then (?cs' ! j)\<lparr>use_flags := use_flags (?cs' ! j) OR uf\<rparr>
           else ?cs' ! j)"
        by simp_all
      have "modify_combination_from fmt md uf (Suc i) ?cs' ! j =
          (if i \<le> j \<and> format (cs ! j) = fmt \<and>
              format_metadata.tiling (metadata (cs ! j)) = format_metadata.tiling md \<and>
              modifier (metadata (cs ! j)) = modifier md
           then (cs ! j)\<lparr>use_flags := use_flags (cs ! j) OR uf\<rparr>
           else cs ! j)" if j: "j < length cs" for j
      proof -
        consider "j < i" | "j = i" | "i < j" by linarith
        then show ?thesis
        proof cases
          case 1 then show ?thesis using IH(2) j by simp
        next
          case 2 then show ?thesis using IH(2) j m by (simp add: drv_array_at_idx_def)
        next
          case 3 then show ?thesis using IH(2) j by simp
        qed
      qed
      then show ?thesis
        unfolding unfold using IH(1) by simp
    next
      case m: False
      have unfold: "modify_combination_from fmt md uf i cs =
                    modify_combination_from fmt md uf (Suc i) cs"
        using i m by (subst modify_combination_from.simps) (auto simp: Let_def)
      from "1.IH"(2) [OF i refl m]
      have IH: "length (modify_combination_from fmt md uf (Suc i) cs) = length cs"
        "\<forall>j<length cs. modify_combination_from fmt md uf (Suc i) cs ! j =
          (if Suc i \<le> j \<and> format (cs ! j) = fmt \<and>
              format_metadata.tiling (metadata (cs ! j)) = format_metadata.tiling md \<and>
              modifier (metadata (cs ! j)) = modifier md
           then (cs ! j)\<lparr>use_flags := use_flags (cs ! j) OR uf\<rparr>
           else cs ! j)"
        by simp_all
      have "modify_combination_from fmt md uf (Suc i) cs ! j =
          (if i \<le> j \<and> format (cs ! j) = fmt \<and>
              format_metadata.tiling (metadata (cs ! j)) = format_metadata.tiling md \<and>
              modifier (metadata (cs ! j)) = modifier md
           then (cs ! j)\<lparr>use_flags := use_flags (cs ! j) OR uf\<rparr>
           else cs ! j)" if j: "j < length cs" for j
      proof -
        consider "j < i" | "j = i" | "i < j" by linarith
        then show ?thesis
        proof cases
          case 1 then show ?thesis using IH(2) j by simp
        next
          case 2 then show ?thesis using IH(2) j m by (auto simp: drv_array_at_idx_def)
        next
          case 3 then show ?thesis using IH(2) j by simp
        qed
      qed
      then show ?thesis
        unfolding unfold using IH(1) by simp
    qed
  qed
qed

text \<open>
  Claim C6. \<^verbatim>\<open>drv_modify_combination\<close> keeps the number and the order of the records; a
  record whose format, tiling and modifier all match gets the usage bits ORed in and is
  otherwise unchanged, every other record is unchanged, no usage bit is ever lost, and when
  no record matches the driver is left exactly as it was.
\<close>

theorem modify_combination_widens:
  "length (combos (drv_modify_combination drv fmt md uf)) = length (combos drv) \<and>
   (\<forall>j<length (combos drv).
      combos (drv_modify_combination drv fmt md uf) ! j =
        (if format (combos drv ! j) = fmt \<and>
            format_metadata.tiling (metadata (combos drv ! j)) = format_metadata.tiling md \<and>
            modifier (metadata (combos drv ! j)) = modifier md
         then (combos drv ! j)\<lparr>use_flags := use_flags (combos drv ! j) OR uf\<rparr>
         else combos drv ! j) \<and>
      use_flags (combos drv ! j) OR use_flags (combos (drv_modify_combination drv fmt md uf) ! j)
        = use_flags (combos (drv_modify_combination drv fmt md uf) ! j)) \<and>
   ((\<forall>c\<in>set (combos drv). \<not> (format c = fmt \<and>
        format_metadata.tiling (metadata c) = format_metadata.tiling md \<and>
        modifier (metadata c) = modifier md)) \<longrightarrow>
      drv_modify_combination drv fmt md uf = drv) \<and>
   mappings (drv_modify_combination drv fmt md uf) = mappings drv \<and>
   buffer_table (drv_modify_combination drv fmt md uf) = buffer_table drv"
proof -
  let ?cs = "combos drv"
  let ?cs' = "modify_combination_from fmt md uf 0 ?cs"
  have c: "combos (drv_modify_combination drv fmt md uf) = ?cs'"
    by (simp add: drv_modify_combination_def)
  have len: "length ?cs' = length ?cs"
    using modify_combination_from_nth [of fmt md uf 0 ?cs] by simp
  have nth: "?cs' ! j =
        (if format (?cs ! j) = fmt \<and>
            format_metadata.tiling (metadata (?cs ! j)) = format_metadata.tiling md \<and>
            modifier (metadata (?cs ! j)) = modifier md
         then (?cs ! j)\<lparr>use_flags := use_flags (?cs ! j) OR uf\<rparr>
         else ?cs ! j)" if "j < length ?cs" for j
    using modify_combination_from_nth [of fmt md uf 0 ?cs] that by simp
  have wider: "use_flags (?cs ! j) OR use_flags (?cs' ! j) = use_flags (?cs' ! j)"
    if "j < length ?cs" for j
    using nth [OF that] by (simp add: or.assoc [symmetric])
  have none: "drv_modify_combination drv fmt md uf = drv"
    if "\<forall>c\<in>set ?cs. \<not> (format c = fmt \<and>
        format_metadata.tiling (metadata c) = format_metadata.tiling md \<and>
        modifier (metadata c) = modifier md)"
  proof -
    have "?cs' = ?cs"
      using len nth that by (intro nth_equalityI) auto
    then show ?thesis by (simp add: drv_modify_combination_def)
  qed
  show ?thesis
    unfolding c using len nth wider none
    by (simp add: drv_modify_combination_def)
qed


text \<open>
  C6 on a registry of three records: widening linear XRGB8888 changes the first record
  only, and widening R8, which no record has, changes nothing.
\<close>

theorem modify_combination_widens_witness:
  "combos (drv_modify_combination example_driver DRM_FORMAT_XRGB8888
      \<lparr>priority = 3, tiling = 0, modifier = 0\<rparr> 8) =
     [\<lparr>format = DRM_FORMAT_XRGB8888,
        metadata = \<lparr>priority = 1, tiling = 0, modifier = 0\<rparr>, use_flags = 9\<rparr>,
       \<lparr>format = DRM_FORMAT_NV12,
        metadata = \<lparr>priority = 1, tiling = 0, modifier = 0\<rparr>, use_flags = 2\<rparr>,
       \<lparr>format = DRM_FORMAT_XRGB8888,
        metadata = \<lparr>priority = 1, tiling = 1, modifier = 0\<rparr>, use_flags = 4\<rparr>] \<and>
   \<not> (\<exists>c\<in>set (combos example_driver). format c = DRM_FORMAT_R8 \<and>
        format_metadata.tiling (metadata c) = 0 \<and> modifier (metadata c) = 0) \<and>
   drv_modify_combination example_driver DRM_FORMAT_R8
      \<lparr>priority = 3, tiling = 0, modifier = 0\<rparr> 8 = example_driver"
proof -
  let ?md = "\<lparr>priority = 3, tiling = 0, modifier = 0\<rparr>"
  let ?cs' = "combos (drv_modify_combination example_driver DRM_FORMAT_XRGB8888 ?md 8)"
  note inst = modify_combination_widens [of example_driver DRM_FORMAT_XRGB8888 ?md 8]
  from inst have len: "length ?cs' = 3" by (simp add: example_driver_def)
  from inst have nth: "\<forall>j<length (combos example_driver). ?cs' ! j =
        (if format (combos example_driver ! j) = DRM_FORMAT_XRGB8888 \<and>
            format_metadata.tiling (metadata (combos example_driver ! j)) = format_metadata.tiling ?md \<and>
            modifier (metadata (combos example_driver ! j)) = modifier ?md
         then (combos example_driver ! j)\<lparr>use_flags := use_flags (combos example_driver ! j) OR 8\<rparr>
         else combos example_driver ! j)"
    by blast
  have n0: "?cs' ! 0 = \<lparr>format = DRM_FORMAT_XRGB8888,
        metadata = \<lparr>priority = 1, tiling = 0, modifier = 0\<rparr>, use_flags = 9\<rparr>"
    using nth [rule_format, of 0] by (simp add: example_driver_def)
  have n1: "?cs' ! 1 = \<lparr>format = DRM_FORMAT_NV12,
        metadata = \<lparr>priority = 1, tiling = 0, modifier = 0\<rparr>, use_flags = 2\<rparr>"
    using nth [rule_format, of 1] by (simp add: example_driver_def)
  have n2: "?cs' ! 2 = \<lparr>format = DRM_FORMAT_XRGB8888,
        metadata = \<lparr>priority = 1, tiling = 1, modifier = 0\<rparr>, use_flags = 4\<rparr>"
    using nth [rule_format, of 2] by (simp add: example_driver_def)
  have widened: "?cs' = [\<lparr>format = DRM_FORMAT_XRGB8888,
        metadata = \<lparr>priority = 1, tiling = 0, modifier = 0\<rparr>, use_flags = 9\<rparr>,
       \<lparr>format = DRM_FORMAT_NV12,
        metadata = \<lparr>priority = 1, tiling = 0, modifier = 0\<rparr>, use_flags = 2\<rparr>,
       \<lparr>format = DRM_FORMAT_XRGB8888,
        metadata = \<lparr>priority = 1, tiling = 1, modifier = 0\<rparr>, use_flags = 4\<rparr>]"
    using len n0 n1 n2
    by (intro nth_equalityI) (auto simp: less_Suc_eq numeral_3_eq_3 numeral_2_eq_2)
  have none: "\<forall>c\<in>set (combos example_driver). \<not> (format c = DRM_FORMAT_R8 \<and>
        format_metadata.tiling (metadata c) = 0 \<and> modifier (metadata c) = 0)"
    by (simp add: example_driver_def)
  from modify_combination_widens [of example_driver DRM_FORMAT_R8 ?md 8] none
  have same: "drv_modify_combination example_driver DRM_FORMAT_R8 ?md 8 = example_driver"
    by simp
  show ?thesis using widened none same by blast
qed

section \<open>Picking a modifier\<close>

lemma pick_inner_take:
  "count \<le> length modifiers \<Longrightarrow> j \<le> count \<Longrightarrow>
   pick_modifier_inner modifiers count wanted j =
     (if wanted \<in> set (drop j (take count modifiers)) then Some wanted else None)"
proof (induction "count - j" arbitrary: j)
  case 0
  then show ?case by (simp add: pick_modifier_inner.simps)
next
  case (Suc n)
  then have j: "j < count" by simp
  have d: "drop j (take count modifiers) = modifiers ! j # drop (Suc j) (take count modifiers)"
    using j Suc.prems(1) by (simp add: Cons_nth_drop_Suc [symmetric])
  have "pick_modifier_inner modifiers count wanted (Suc j) =
     (if wanted \<in> set (drop (Suc j) (take count modifiers)) then Some wanted else None)"
    using Suc.hyps(1) [of "Suc j"] Suc.hyps(2) Suc.prems(1) j by simp
  then show ?case
    using j by (subst pick_modifier_inner.simps) (auto simp: d)
qed

lemma pick_outer_take:
  "count \<le> length modifiers \<Longrightarrow> order_count \<le> length modifier_order \<Longrightarrow> i \<le> order_count \<Longrightarrow>
   pick_modifier_outer modifiers count modifier_order order_count i =
     (case find (\<lambda>m. m \<in> set (take count modifiers)) (drop i (take order_count modifier_order)) of
        Some m \<Rightarrow> m | None \<Rightarrow> DRM_FORMAT_MOD_LINEAR)"
proof (induction "order_count - i" arbitrary: i)
  case 0
  then show ?case by (simp add: pick_modifier_outer.simps)
next
  case (Suc n)
  then have i: "i < order_count" by simp
  have d: "drop i (take order_count modifier_order) =
           modifier_order ! i # drop (Suc i) (take order_count modifier_order)"
    using i Suc.prems(2) by (simp add: Cons_nth_drop_Suc [symmetric])
  have IH: "pick_modifier_outer modifiers count modifier_order order_count (Suc i) =
     (case find (\<lambda>m. m \<in> set (take count modifiers))
             (drop (Suc i) (take order_count modifier_order)) of
        Some m \<Rightarrow> m | None \<Rightarrow> DRM_FORMAT_MOD_LINEAR)"
    using Suc.hyps(1) [of "Suc i"] Suc.hyps(2) Suc.prems(1,2) i by simp
  show ?case
    using i IH
    by (subst pick_modifier_outer.simps)
       (simp add: d pick_inner_take [OF Suc.prems(1), of 0])
qed

text \<open>
  Claim C8. Called with counts that do not exceed its two arrays, \<^verbatim>\<open>drv_pick_modifier\<close>
  returns the first of the \<open>order_count\<close> entries of the priority order that occurs among
  the \<open>count\<close> candidates, and \<^verbatim>\<open>DRM_FORMAT_MOD_LINEAR\<close> when none does; both loops
  terminate on every input. So picking from \<open>[A, B, C]\<close> with priority \<open>[C, A]\<close> gives
  \<open>C\<close>, and picking from \<open>[A, B]\<close> with priority \<open>[C]\<close> gives the linear modifier when
  \<open>C\<close> is neither.
\<close>

theorem pick_modifier_first_in_order:
  assumes "count \<le> length modifiers" and "order_count \<le> length modifier_order"
  shows "drv_pick_modifier modifiers count modifier_order order_count =
     (case find (\<lambda>m. m \<in> set (take count modifiers)) (take order_count modifier_order) of
        Some m \<Rightarrow> m | None \<Rightarrow> DRM_FORMAT_MOD_LINEAR) \<and>
     drv_pick_modifier [A, B, C] 3 [C, A] 2 = C \<and>
     (C \<noteq> A \<and> C \<noteq> B \<longrightarrow> drv_pick_modifier [A, B] 2 [C] 1 = DRM_FORMAT_MOD_LINEAR)"
proof -
  have general: "drv_pick_modifier ms c os oc =
     (case find (\<lambda>m. m \<in> set (take c ms)) (take oc os) of
        Some m \<Rightarrow> m | None \<Rightarrow> DRM_FORMAT_MOD_LINEAR)"
    if "c \<le> length ms" "oc \<le> length os" for ms c os oc
    using pick_outer_take [OF that le0] by (simp add: drv_pick_modifier_def)
  have first: "drv_pick_modifier [A, B, C] 3 [C, A] 2 = C"
    using general [of 3 "[A, B, C]" 2 "[C, A]"] by simp
  have none: "drv_pick_modifier [A, B] 2 [C] 1 = DRM_FORMAT_MOD_LINEAR" if "C \<noteq> A \<and> C \<noteq> B"
    using general [of 2 "[A, B]" 1 "[C]"] that by simp
  show ?thesis using general [OF assms] first none by blast
qed

text \<open>
  C8 with the modifiers 1, 2 and 3.
\<close>

theorem pick_modifier_first_in_order_witness:
  "(3 :: nat) \<le> length [1, 2, 3 :: u64] \<and> (2 :: nat) \<le> length [3, 1 :: u64] \<and>
   (3 :: u64) \<noteq> 1 \<and> (3 :: u64) \<noteq> 2 \<and>
   drv_pick_modifier [1, 2, 3] 3 [3, 1] 2 = 3 \<and>
   drv_pick_modifier [1, 2] 2 [3] 1 = DRM_FORMAT_MOD_LINEAR"
  using pick_modifier_first_in_order [of 3 "[1, 2, 3]" 2 "[3, 1]" 1 2 3]
  by simp

section \<open>Reference counts of handles\<close>

lemma get_after_increment:
  "drv_get_reference_count (drv_increment_reference_count d b plane) b plane =
     drv_get_reference_count d b plane + 1"
  by (simp add: drv_get_reference_count_def drv_increment_reference_count_def
        drmHashLookup_def drmHashDelete_def drmHashInsert_def Let_def)

lemma get_after_decrement:
  "drv_get_reference_count (drv_decrement_reference_count d b plane) b plane =
     (if drv_get_reference_count d b plane = 0 then 0 else drv_get_reference_count d b plane - 1)"
  by (simp add: drv_get_reference_count_def drv_decrement_reference_count_def
        drmHashLookup_def drmHashDelete_def drmHashInsert_def Let_def word_greater_zero_iff)

lemma table_after_decrement_zero:
  "drv_get_reference_count d b plane = 0 \<Longrightarrow>
     buffer_table (drv_decrement_reference_count d b plane) (handles b ! plane) = None"
  by (simp add: drv_get_reference_count_def drv_decrement_reference_count_def
        drmHashLookup_def drmHashDelete_def drmHashInsert_def Let_def)

text \<open>
  Claim C7. For a handle that is not in the table \<^verbatim>\<open>drv_get_reference_count\<close> returns 0,
  and three increments followed by two decrements leave the count at 1. A decrement at count
  0 stores nothing for the handle, so the count stays 0; in general a decrement takes the
  count to its predecessor and stops at 0.
\<close>

theorem reference_count_saturates:
  assumes "bo_arrays_ok b" and "plane < DRV_MAX_PLANES"
  shows "(buffer_table d (handles b ! plane) = None \<longrightarrow>
            drv_get_reference_count d b plane = 0 \<and>
            drv_get_reference_count
              (drv_decrement_reference_count (drv_decrement_reference_count
                (drv_increment_reference_count (drv_increment_reference_count
                  (drv_increment_reference_count d b plane) b plane) b plane) b plane) b plane)
              b plane = 1) \<and>
         (drv_get_reference_count d b plane = 0 \<longrightarrow>
            buffer_table (drv_decrement_reference_count d b plane) (handles b ! plane) = None \<and>
            drv_get_reference_count (drv_decrement_reference_count d b plane) b plane = 0) \<and>
         unat (drv_get_reference_count (drv_decrement_reference_count d b plane) b plane) =
           unat (drv_get_reference_count d b plane) - 1"
proof -
  have a: "drv_get_reference_count d b plane = 0" if "buffer_table d (handles b ! plane) = None"
    using that by (simp add: drv_get_reference_count_def drmHashLookup_def)
  have b: "drv_get_reference_count
              (drv_decrement_reference_count (drv_decrement_reference_count
                (drv_increment_reference_count (drv_increment_reference_count
                  (drv_increment_reference_count d b plane) b plane) b plane) b plane) b plane)
              b plane = 1" if "buffer_table d (handles b ! plane) = None"
    using a [OF that] by (simp add: get_after_increment get_after_decrement)
  have c: "unat (drv_get_reference_count (drv_decrement_reference_count d b plane) b plane) =
           unat (drv_get_reference_count d b plane) - 1"
    by (simp add: get_after_decrement unat_minus_one)
  show ?thesis
    using a b c table_after_decrement_zero [of d b plane]
    by (simp add: get_after_decrement)
qed

text \<open>
  C7 on the empty table, for plane 0 of a buffer object with handle 0.
\<close>

theorem reference_count_saturates_witness:
  "bo_arrays_ok (zeroed_bo 0 1) \<and> (0 :: nat) < DRV_MAX_PLANES \<and>
   buffer_table empty_driver (handles (zeroed_bo 0 1) ! 0) = None \<and>
   drv_get_reference_count empty_driver (zeroed_bo 0 1) 0 = 0 \<and>
   drv_get_reference_count
     (drv_decrement_reference_count (drv_decrement_reference_count
       (drv_increment_reference_count (drv_increment_reference_count
         (drv_increment_reference_count empty_driver (zeroed_bo 0 1) 0) (zeroed_bo 0 1) 0)
           (zeroed_bo 0 1) 0) (zeroed_bo 0 1) 0) (zeroed_bo 0 1) 0)
     (zeroed_bo 0 1) 0 = 1 \<and>
   buffer_table (drv_decrement_reference_count empty_driver (zeroed_bo 0 1) 0)
     (handles (zeroed_bo 0 1) ! 0) = None \<and>
   drv_get_reference_count (drv_decrement_reference_count empty_driver (zeroed_bo 0 1) 0)
     (zeroed_bo 0 1) 0 = 0"
proof -
  have h: "bo_arrays_ok (zeroed_bo 0 1)" "(0 :: nat) < DRV_MAX_PLANES"
    by (simp_all add: zeroed_bo_ok DRV_MAX_PLANES_def)
  have t: "buffer_table empty_driver (handles (zeroed_bo 0 1) ! 0) = None"
    by (simp add: empty_driver_def)
  from reference_count_saturates [OF h, of empty_driver] t
  show ?thesis using h by simp
qed

section \<open>Creating a dumb buffer\<close>

lemma set_plane_handles_meta:
  "meta (set_plane_handles hdl plane b) = meta b"
proof (induction hdl plane b rule: set_plane_handles.induct)
  case (1 hdl plane b)
  show ?case
  proof (cases "plane < num_planes (meta b)")
    case True
    then show ?thesis using "1.IH" by (subst set_plane_handles.simps) simp
  next
    case False
    then show ?thesis by (subst set_plane_handles.simps) simp
  qed
qed

lemma android_layout: "layout_from_format DRM_FORMAT_YVU420_ANDROID = Some triplanar_yuv_420_layout"
  by simp

lemma android_dimensions:
  "dumb_bo_dimensions b w h DRM_FORMAT_YVU420_ANDROID =
     (ALIGN w 32, 3 * DIV_ROUND_UP (height (meta b)) 2, height (meta b))"
  by (simp add: dumb_bo_dimensions_def Let_def)

lemma bo_from_format_android:
  assumes "bo_arrays_ok b"
  shows "pitch = ALIGN pitch 32 \<Longrightarrow>
           \<exists>b1. drv_bo_from_format b pitch (height (meta b)) DRM_FORMAT_YVU420_ANDROID = Inr b1 \<and>
                 height (meta b1) = height (meta b)"
    and "pitch \<noteq> ALIGN pitch 32 \<Longrightarrow>
           drv_bo_from_format b pitch (height (meta b)) DRM_FORMAT_YVU420_ANDROID = Inl AssertionFailed"
proof -
  assume p: "pitch = ALIGN pitch 32"
  from bo_from_format_and_padding_result [OF android_layout assms, of "height (meta b)" pitch "[0, 0, 0, 0]"] p
  show "\<exists>b1. drv_bo_from_format b pitch (height (meta b)) DRM_FORMAT_YVU420_ANDROID = Inr b1 \<and>
                 height (meta b1) = height (meta b)"
    unfolding drv_bo_from_format_def by blast
next
  assume "pitch \<noteq> ALIGN pitch 32"
  then show "drv_bo_from_format b pitch (height (meta b)) DRM_FORMAT_YVU420_ANDROID = Inl AssertionFailed"
    by (simp add: drv_bo_from_format_def drv_bo_from_format_and_padding_def
          drv_num_planes_from_format_def triplanar_yuv_420_layout_def)
qed

lemma dumb_create_android:
  fixes b :: bo and w :: u32 and k :: kernel and wld :: world and quirks dumb32bpp :: u64
  assumes ok: "bo_arrays_ok b"
  defines "req \<equiv> DRM_IOCTL_MODE_CREATE_DUMB
     \<lparr>cd_height = 3 * DIV_ROUND_UP (height (meta b)) 2,
      cd_width = (if quirks AND dumb32bpp \<noteq> 0 then DIV_ROUND_UP (ALIGN w 32) 4 else ALIGN w 32),
      cd_bpp = (if quirks AND dumb32bpp \<noteq> 0 then 32 else 8), cd_flags = 0\<rparr>"
  defines "r \<equiv> k (calls wld) req"
  defines "wld' \<equiv> wld\<lparr>calls := calls wld @ [req],
                        errno := (if ret r \<noteq> 0 then err r else errno wld)\<rparr>"
  shows "ret r \<noteq> 0 \<Longrightarrow>
           drv_dumb_bo_create_ex k dumb32bpp wld b w h DRM_FORMAT_YVU420_ANDROID uf quirks =
             Inr (- errno wld', b, wld')"
    and "ret r = 0 \<Longrightarrow> out_pitch r \<noteq> ALIGN (out_pitch r) 32 \<Longrightarrow>
           drv_dumb_bo_create_ex k dumb32bpp wld b w h DRM_FORMAT_YVU420_ANDROID uf quirks =
             Inl AssertionFailed"
    and "ret r = 0 \<Longrightarrow> out_pitch r = ALIGN (out_pitch r) 32 \<Longrightarrow>
           \<exists>b'. drv_dumb_bo_create_ex k dumb32bpp wld b w h DRM_FORMAT_YVU420_ANDROID uf quirks =
             Inr (0, b', wld') \<and> height (meta b') = height (meta b)"
proof -
  have io: "drmIoctl k wld req = (r, wld')"
    by (simp add: drmIoctl_def r_def wld'_def Let_def)
  have bpp: "(word_of_int (bytes_per_pixel triplanar_yuv_420_layout ! 0) :: u32) = 1"
    by (simp add: triplanar_yuv_420_layout_def)
  have unfold: "drv_dumb_bo_create_ex k dumb32bpp wld b w h DRM_FORMAT_YVU420_ANDROID uf quirks =
     (if ret r \<noteq> 0 then Inr (- errno wld', b, wld')
      else
        (case drv_bo_from_format b (out_pitch r) (height (meta b)) DRM_FORMAT_YVU420_ANDROID of
           Inl e \<Rightarrow> Inl e
         | Inr b1 \<Rightarrow>
             let b2 = set_plane_handles (out_handle r) 0 b1
             in Inr (0, b2\<lparr>meta := (meta b2)\<lparr>total_size := out_size r\<rparr>\<rparr>, wld')))"
  proof (cases "quirks AND dumb32bpp \<noteq> 0")
    case True
    then show ?thesis
      using io [unfolded req_def]
      by (simp add: drv_dumb_bo_create_ex_def android_dimensions bpp Let_def)
  next
    case False
    then show ?thesis
      using io [unfolded req_def]
      by (simp add: drv_dumb_bo_create_ex_def android_dimensions bpp Let_def)
  qed
  show "ret r \<noteq> 0 \<Longrightarrow>
           drv_dumb_bo_create_ex k dumb32bpp wld b w h DRM_FORMAT_YVU420_ANDROID uf quirks =
             Inr (- errno wld', b, wld')"
    unfolding unfold by simp
  show "ret r = 0 \<Longrightarrow> out_pitch r \<noteq> ALIGN (out_pitch r) 32 \<Longrightarrow>
           drv_dumb_bo_create_ex k dumb32bpp wld b w h DRM_FORMAT_YVU420_ANDROID uf quirks =
             Inl AssertionFailed"
    unfolding unfold using bo_from_format_android(2) [OF ok, of "out_pitch r"] by simp
  show "ret r = 0 \<Longrightarrow> out_pitch r = ALIGN (out_pitch r) 32 \<Longrightarrow>
           \<exists>b'. drv_dumb_bo_create_ex k dumb32bpp wld b w h DRM_FORMAT_YVU420_ANDROID uf quirks =
             Inr (0, b', wld') \<and> height (meta b') = height (meta b)"
    unfolding unfold using bo_from_format_android(1) [OF ok, of "out_pitch r"]
    by (auto simp: Let_def set_plane_handles_meta)
qed

lemma android_100_75: "ALIGN 100 32 = (128 :: u32)" "3 * DIV_ROUND_UP 75 2 = (114 :: u32)"
  "DIV_ROUND_UP 128 4 = (32 :: u32)"
  by (simp_all add: ALIGN_def DIV_ROUND_UP_def)

text \<open>
  Claim C5. For the Android YV12 format and a buffer object of height 75, a creation request
  of width 100 computes the aligned width 128 and the aligned height 114. Whenever the call
  returns it has issued exactly one request, \<^verbatim>\<open>DRM_IOCTL_MODE_CREATE_DUMB\<close> with height
  114, and the height of the buffer object is still 75. The width of the request is 128, at
  8 bits per pixel, unless the 32-bits-per-pixel quirk is set (\<^verbatim>\<open>drv_dumb_bo_create\<close> never
  sets it), which turns the 128 bytes of a row into 32 pixels of 32 bits. The call returns
  when the kernel fails the request or answers with a pitch that is a multiple of 32.
\<close>

theorem android_yv12_dumb_create:
  fixes b :: bo and k :: kernel and wld :: world and quirks dumb32bpp :: u64
  assumes h75: "height (meta b) = 75" and ok: "bo_arrays_ok b"
  defines "request \<equiv> DRM_IOCTL_MODE_CREATE_DUMB
          \<lparr>cd_height = 114, cd_width = (if quirks AND dumb32bpp \<noteq> 0 then 32 else 128),
           cd_bpp = (if quirks AND dumb32bpp \<noteq> 0 then 32 else 8), cd_flags = 0\<rparr>"
  shows "dumb_bo_dimensions b 100 h DRM_FORMAT_YVU420_ANDROID = (128, 114, 75) \<and>
     (\<forall>rv b' w'.
        drv_dumb_bo_create_ex k dumb32bpp wld b 100 h DRM_FORMAT_YVU420_ANDROID uf quirks
          = Inr (rv, b', w') \<longrightarrow>
        calls w' = calls wld @ [request] \<and> height (meta b') = 75) \<and>
     (ret (k (calls wld) request) \<noteq> 0 \<or>
      out_pitch (k (calls wld) request) = ALIGN (out_pitch (k (calls wld) request)) 32 \<longrightarrow>
      (\<exists>rv b' w'.
        drv_dumb_bo_create_ex k dumb32bpp wld b 100 h DRM_FORMAT_YVU420_ANDROID uf quirks
          = Inr (rv, b', w'))) \<and>
     drv_dumb_bo_create k dumb32bpp wld b 100 h DRM_FORMAT_YVU420_ANDROID uf =
       drv_dumb_bo_create_ex k dumb32bpp wld b 100 h DRM_FORMAT_YVU420_ANDROID uf BO_QUIRK_NONE \<and>
     BO_QUIRK_NONE AND dumb32bpp = 0"
proof -
  let ?r = "k (calls wld) request"
  let ?w = "wld\<lparr>calls := calls wld @ [request],
                 errno := (if ret ?r \<noteq> 0 then err ?r else errno wld)\<rparr>"
  let ?run = "drv_dumb_bo_create_ex k dumb32bpp wld b 100 h DRM_FORMAT_YVU420_ANDROID uf quirks"
  have req: "DRM_IOCTL_MODE_CREATE_DUMB
     \<lparr>cd_height = 3 * DIV_ROUND_UP (height (meta b)) 2,
      cd_width = (if quirks AND dumb32bpp \<noteq> 0 then DIV_ROUND_UP (ALIGN 100 32) 4 else ALIGN 100 32),
      cd_bpp = (if quirks AND dumb32bpp \<noteq> 0 then 32 else 8), cd_flags = 0\<rparr> = request"
    by (simp add: request_def h75 android_100_75)
  note facts = dumb_create_android [OF ok, of k wld quirks dumb32bpp 100 h uf, unfolded req]
  have dims: "dumb_bo_dimensions b 100 h DRM_FORMAT_YVU420_ANDROID = (128, 114, 75)"
    by (simp add: android_dimensions h75 android_100_75)
  have after: "calls w' = calls wld @ [request] \<and> height (meta b') = 75"
    if run: "?run = Inr (rv, b', w')" for rv b' w'
  proof (cases "ret ?r \<noteq> 0")
    case True
    from facts(1) [OF True] run show ?thesis by (simp add: h75)
  next
    case False
    then have r0: "ret ?r = 0" by simp
    show ?thesis
    proof (cases "out_pitch ?r = ALIGN (out_pitch ?r) 32")
      case True
      from facts(3) [OF r0 True] run show ?thesis by (auto simp: h75)
    next
      case False
      from facts(2) [OF r0 False] run show ?thesis by simp
    qed
  qed
  have returns: "\<exists>rv b' w'. ?run = Inr (rv, b', w')"
    if "ret ?r \<noteq> 0 \<or> out_pitch ?r = ALIGN (out_pitch ?r) 32"
  proof (cases "ret ?r \<noteq> 0")
    case True
    from facts(1) [OF True] show ?thesis by blast
  next
    case False
    then have r0: "ret ?r = 0" and al: "out_pitch ?r = ALIGN (out_pitch ?r) 32"
      using that by simp_all
    from facts(3) [OF r0 al] show ?thesis by blast
  qed
  have plain: "drv_dumb_bo_create k dumb32bpp wld b 100 h DRM_FORMAT_YVU420_ANDROID uf =
       drv_dumb_bo_create_ex k dumb32bpp wld b 100 h DRM_FORMAT_YVU420_ANDROID uf BO_QUIRK_NONE"
    "BO_QUIRK_NONE AND dumb32bpp = 0"
    by (simp_all add: drv_dumb_bo_create_def BO_QUIRK_NONE_def)
  show ?thesis
    using dims after returns plain by blast
qed


text \<open>
  C5 with a kernel that answers every request with handle 7, pitch 128 and size 14592.
\<close>

theorem android_yv12_dumb_create_witness:
  "height (meta (zeroed_bo 75 3)) = 75 \<and> bo_arrays_ok (zeroed_bo 75 3) \<and>
   dumb_bo_dimensions (zeroed_bo 75 3) 100 75 DRM_FORMAT_YVU420_ANDROID = (128, 114, 75) \<and>
   (\<exists>rv b' w'.
      drv_dumb_bo_create_ex
        (\<lambda>history request. \<lparr>ret = 0, err = 0, out_handle = 7, out_pitch = 128, out_size = 14592\<rparr>)
        1 \<lparr>calls = [], errno = 0\<rparr> (zeroed_bo 75 3) 100 75 DRM_FORMAT_YVU420_ANDROID 0 BO_QUIRK_NONE
        = Inr (rv, b', w') \<and>
      calls w' = [DRM_IOCTL_MODE_CREATE_DUMB
          \<lparr>cd_height = 114, cd_width = 128, cd_bpp = 8, cd_flags = 0\<rparr>] \<and>
      height (meta b') = 75)"
proof -
  let ?k = "\<lambda>history request. \<lparr>ret = 0 :: int, err = 0 :: int, out_handle = 7 :: u32,
              out_pitch = 128 :: u32, out_size = 14592 :: u64\<rparr>"
  let ?w = "\<lparr>calls = [], errno = 0\<rparr>"
  let ?run = "drv_dumb_bo_create_ex ?k 1 ?w (zeroed_bo 75 3) 100 75 DRM_FORMAT_YVU420_ANDROID 0
                BO_QUIRK_NONE"
  let ?req = "DRM_IOCTL_MODE_CREATE_DUMB
          \<lparr>cd_height = 114, cd_width = 128, cd_bpp = 8, cd_flags = 0\<rparr>"
  have h: "height (meta (zeroed_bo 75 3)) = 75" "bo_arrays_ok (zeroed_bo 75 3)"
    by (simp_all add: zeroed_bo_ok) (simp add: zeroed_bo_def)
  have al: "(128 :: u32) = ALIGN 128 32" by (simp add: ALIGN_def)
  have q: "\<not> BO_QUIRK_NONE AND (1 :: u64) \<noteq> 0" by (simp add: BO_QUIRK_NONE_def)
  note inst = android_yv12_dumb_create [OF h, where k = ?k and wld = ?w and quirks = BO_QUIRK_NONE
      and dumb32bpp = 1 and h = 75 and uf = 0, unfolded if_not_P [OF q]]
  from inst have dims: "dumb_bo_dimensions (zeroed_bo 75 3) 100 75 DRM_FORMAT_YVU420_ANDROID
      = (128, 114, 75)"
    by (rule conjunct1)
  from inst have after: "\<forall>rv b' w'. ?run = Inr (rv, b', w') \<longrightarrow>
        calls w' = calls ?w @ [?req] \<and> height (meta b') = 75"
    by (elim conjE)
  from inst al have "\<exists>rv b' w'. ?run = Inr (rv, b', w')"
    by simp
  then obtain rv b' w' where run: "?run = Inr (rv, b', w')" by blast
  with after have "calls w' = calls ?w @ [?req] \<and> height (meta b') = 75"
    by blast
  then have "calls w' = [?req] \<and> height (meta b') = 75"
    by simp
  with run dims h show ?thesis by blast
qed

section \<open>Closing the handles of a buffer object\<close>

lemma earlier_plane_eq:
  "i \<le> plane \<Longrightarrow>
   (earlier_plane hs plane i = plane) = (\<forall>q. i \<le> q \<and> q < plane \<longrightarrow> hs ! q \<noteq> hs ! plane)"
proof (induction "plane - i" arbitrary: i)
  case 0
  then show ?case by (subst earlier_plane.simps) auto
next
  case (Suc n)
  then have i: "i < plane" by simp
  have IH: "(earlier_plane hs plane (Suc i) = plane) =
            (\<forall>q. Suc i \<le> q \<and> q < plane \<longrightarrow> hs ! q \<noteq> hs ! plane)"
    using Suc.hyps(1) [of "Suc i"] Suc.hyps(2) i by simp
  show ?case
  proof (cases "hs ! i = hs ! plane")
    case True
    then have "earlier_plane hs plane i = i" using i by (subst earlier_plane.simps) simp
    then show ?thesis using i True by auto
  next
    case False
    then have "earlier_plane hs plane i = earlier_plane hs plane (Suc i)"
      using i by (subst earlier_plane.simps) simp
    moreover have "(\<forall>q. i \<le> q \<and> q < plane \<longrightarrow> hs ! q \<noteq> hs ! plane) =
                   (\<forall>q. Suc i \<le> q \<and> q < plane \<longrightarrow> hs ! q \<noteq> hs ! plane)"
      using False by (metis Suc_leD Suc_leI le_neq_implies_less)
    ultimately show ?thesis using IH by simp
  qed
qed

lemma gem_close_planes_calls:
  "plane \<le> num_planes (meta b) \<Longrightarrow>
   calls (snd (gem_close_planes k b plane error wld)) =
     calls wld @ map (\<lambda>q. DRM_IOCTL_GEM_CLOSE (handles b ! q))
       (filter (\<lambda>q. \<forall>i<q. handles b ! i \<noteq> handles b ! q) [plane..<num_planes (meta b)])"
proof (induction "num_planes (meta b) - plane" arbitrary: plane error wld)
  case 0
  then show ?case by (subst gem_close_planes.simps) simp
next
  case (Suc n)
  then have p: "plane < num_planes (meta b)" by simp
  have up: "[plane..<num_planes (meta b)] = plane # [Suc plane..<num_planes (meta b)]"
    using p by (simp add: upt_conv_Cons)
  have first: "(earlier_plane (handles b) plane 0 = plane) =
               (\<forall>i<plane. handles b ! i \<noteq> handles b ! plane)"
    using earlier_plane_eq [of 0 plane "handles b"] by simp
  have IH: "calls (snd (gem_close_planes k b (Suc plane) e w)) =
     calls w @ map (\<lambda>q. DRM_IOCTL_GEM_CLOSE (handles b ! q))
       (filter (\<lambda>q. \<forall>i<q. handles b ! i \<noteq> handles b ! q) [Suc plane..<num_planes (meta b)])"
    for e w
    using Suc.hyps(1) [of "Suc plane" e w] Suc.hyps(2) p by simp
  show ?case
  proof (cases "earlier_plane (handles b) plane 0 = plane")
    case True
    then show ?thesis
      using p first IH
      by (subst gem_close_planes.simps) (simp add: up drmIoctl_def Let_def)
  next
    case False
    then show ?thesis
      using p first IH
      by (subst gem_close_planes.simps) (simp add: up)
  qed
qed

lemma count_first_planes:
  "count_list (map (\<lambda>q. hs ! q) (filter (\<lambda>q. \<forall>i<q. hs ! i \<noteq> hs ! q) [0..<n])) h =
     (if \<exists>q<n. hs ! q = h then 1 else 0)"
proof (induction n)
  case 0
  then show ?case by simp
next
  case (Suc n)
  show ?case
  proof (cases "hs ! n = h")
    case False
    then have "(\<exists>q<Suc n. hs ! q = h) = (\<exists>q<n. hs ! q = h)"
      by (auto simp: less_Suc_eq)
    then show ?thesis using Suc False by simp
  next
    case True
    show ?thesis
    proof (cases "\<forall>i<n. hs ! i \<noteq> hs ! n")
      case first: True
      then have "\<not> (\<exists>q<n. hs ! q = h)" using True by auto
      then show ?thesis using Suc True first by auto
    next
      case again: False
      then have "\<exists>q<n. hs ! q = h" using True by auto
      then show ?thesis using Suc True again by auto
    qed
  qed
qed

lemma gem_bo_destroy_closes:
  "\<exists>closes. calls (snd (drv_gem_bo_destroy k wld b)) = calls wld @ map DRM_IOCTL_GEM_CLOSE closes \<and>
     (\<forall>h. count_list closes h = (if \<exists>q<num_planes (meta b). handles b ! q = h then 1 else 0))"
proof -
  let ?closes = "map (\<lambda>q. handles b ! q)
       (filter (\<lambda>q. \<forall>i<q. handles b ! i \<noteq> handles b ! q) [0..<num_planes (meta b)])"
  have "calls (snd (drv_gem_bo_destroy k wld b)) = calls wld @ map DRM_IOCTL_GEM_CLOSE ?closes"
    using gem_close_planes_calls [of 0 b k 0 wld]
    by (simp add: drv_gem_bo_destroy_def comp_def)
  moreover have "\<forall>h. count_list ?closes h =
      (if \<exists>q<num_planes (meta b). handles b ! q = h then 1 else 0)"
    using count_first_planes [of "handles b" "num_planes (meta b)"] by blast
  ultimately show ?thesis by blast
qed

section \<open>Importing prime descriptors\<close>

lemma prime_import_planes_failure:
  fixes k :: kernel and data :: drv_import_fd_data
  defines "P \<equiv> \<lambda>q. DRM_IOCTL_PRIME_FD_TO_HANDLE (fds data ! q)"
  assumes len: "length (handles b) = DRV_MAX_PLANES"
    and n: "num_planes (meta b) \<le> DRV_MAX_PLANES"
    and pk: "plane \<le> kk" and kk: "kk < num_planes (meta b)"
    and succ: "\<forall>j. plane \<le> j \<and> j < kk \<longrightarrow> ret (k (calls wld @ map P [plane..<j]) (P j)) = 0"
    and fail: "ret (k (calls wld @ map P [plane..<kk]) (P kk)) \<noteq> 0"
  shows "\<exists>b' w'. prime_import_planes k data plane wld b = (- errno w', b', w') \<and>
      num_planes (meta b') = kk \<and>
      (\<forall>j<plane. handles b' ! j = handles b ! j) \<and>
      (\<forall>j. plane \<le> j \<and> j < kk \<longrightarrow>
         handles b' ! j = out_handle (k (calls wld @ map P [plane..<j]) (P j))) \<and>
      calls w' = calls wld @ map P [plane..<Suc kk] @
         map (\<lambda>q. DRM_IOCTL_GEM_CLOSE (handles b' ! q))
           (filter (\<lambda>q. \<forall>i<q. handles b' ! i \<noteq> handles b' ! q) [0..<kk])"
  using len n pk kk succ fail
proof (induction "kk - plane" arbitrary: plane wld b)
  case 0
  then have eq: "plane = kk" by simp
  let ?r = "k (calls wld) (P kk)"
  let ?w1 = "wld\<lparr>calls := calls wld @ [P kk], errno := err ?r\<rparr>"
  let ?b' = "b\<lparr>meta := (meta b)\<lparr>num_planes := kk\<rparr>\<rparr>"
  let ?w2 = "snd (drv_gem_bo_destroy k ?w1 ?b')"
  have r: "ret ?r \<noteq> 0" using "0.prems"(6) eq by simp
  have run: "prime_import_planes k data plane wld b = (- errno ?w2, ?b', ?w2)"
    using r "0.prems"(4) eq
    by (subst prime_import_planes.simps)
       (simp add: drmIoctl_def Let_def P_def split_beta)
  have c: "calls ?w2 = calls ?w1 @ map (\<lambda>q. DRM_IOCTL_GEM_CLOSE (handles ?b' ! q))
       (filter (\<lambda>q. \<forall>i<q. handles ?b' ! i \<noteq> handles ?b' ! q) [0..<num_planes (meta ?b')])"
    using gem_close_planes_calls [of 0 ?b' k 0 ?w1]
    by (simp add: drv_gem_bo_destroy_def)
  show ?case
    unfolding run using c eq by auto
next
  case (Suc d)
  then have p: "plane < kk" by simp
  let ?r = "k (calls wld) (P plane)"
  let ?w1 = "wld\<lparr>calls := calls wld @ [P plane]\<rparr>"
  let ?b1 = "b\<lparr>handles := (handles b)[plane := out_handle ?r]\<rparr>"
  have r: "ret ?r = 0" using Suc.prems(5) [rule_format, of plane] p by simp
  have run: "prime_import_planes k data plane wld b = prime_import_planes k data (Suc plane) ?w1 ?b1"
    using r p Suc.prems(4)
    by (subst prime_import_planes.simps)
       (simp add: drmIoctl_def Let_def P_def)
  have up: "[plane..<j] = plane # [Suc plane..<j]" if "plane < j" for j
    using that by (simp add: upt_conv_Cons)
  have hist: "calls ?w1 @ map P [Suc plane..<j] = calls wld @ map P [plane..<j]" if "plane < j" for j
    using up [OF that] by simp
  have succ1: "\<forall>j. Suc plane \<le> j \<and> j < kk \<longrightarrow>
         ret (k (calls ?w1 @ map P [Suc plane..<j]) (P j)) = 0"
    using Suc.prems(5) hist by (metis Suc_le_lessD Suc_leD)
  have fail1: "ret (k (calls ?w1 @ map P [Suc plane..<kk]) (P kk)) \<noteq> 0"
    using Suc.prems(6) hist [OF p] by simp
  have d: "d = kk - Suc plane" using Suc.hyps(2) by simp
  from Suc.hyps(1) [OF d, of ?b1 ?w1] Suc.prems(1,2,4) p succ1 fail1
  obtain b' w' where res: "prime_import_planes k data (Suc plane) ?w1 ?b1 = (- errno w', b', w')"
    and np: "num_planes (meta b') = kk"
    and before: "\<forall>j<Suc plane. handles b' ! j = handles ?b1 ! j"
    and after: "\<forall>j. Suc plane \<le> j \<and> j < kk \<longrightarrow>
         handles b' ! j = out_handle (k (calls ?w1 @ map P [Suc plane..<j]) (P j))"
    and cl: "calls w' = calls ?w1 @ map P [Suc plane..<Suc kk] @
         map (\<lambda>q. DRM_IOCTL_GEM_CLOSE (handles b' ! q))
           (filter (\<lambda>q. \<forall>i<q. handles b' ! i \<noteq> handles b' ! q) [0..<kk])"
    by auto
  have plen: "plane < length (handles b)"
    using p Suc.prems(1,2,4) by simp
  have A: "\<forall>j<plane. handles b' ! j = handles b ! j"
    using before by simp
  have B: "handles b' ! j = out_handle (k (calls wld @ map P [plane..<j]) (P j))"
    if "plane \<le> j \<and> j < kk" for j
  proof (cases "j = plane")
    case True
    then show ?thesis using before plen by simp
  next
    case False
    then have j: "plane < j" "Suc plane \<le> j \<and> j < kk" using that by simp_all
    show ?thesis using after j(2) hist [OF j(1)] by simp
  qed
  have C: "calls w' = calls wld @ map P [plane..<Suc kk] @
         map (\<lambda>q. DRM_IOCTL_GEM_CLOSE (handles b' ! q))
           (filter (\<lambda>q. \<forall>i<q. handles b' ! i \<noteq> handles b' ! q) [0..<kk])"
    using cl up [of "Suc kk"] p by simp
  show ?case
    unfolding run using res np A B C by blast
qed

text \<open>
  Claim C9. Let the import requests of planes \<open>0\<close> to \<open>kk - 1\<close> succeed and that of plane
  \<open>kk\<close> fail. Then \<^verbatim>\<open>drv_prime_bo_import\<close> returns \<^verbatim>\<open>-errno\<close>, and by then it has
  issued, after the \<open>kk + 1\<close> import requests, one \<^verbatim>\<open>DRM_IOCTL_GEM_CLOSE\<close> for every
  handle the first \<open>kk\<close> imports returned (one per handle, also when two imports returned the
  same handle) and for nothing else.
\<close>

theorem prime_import_failure_closes_acquired:
  fixes k :: kernel and data :: drv_import_fd_data
  assumes ok: "bo_arrays_ok b" and fdlen: "length (fds data) = DRV_MAX_PLANES"
    and n: "num_planes (meta b) \<le> DRV_MAX_PLANES"
    and kk: "kk < num_planes (meta b)"
    and succ: "\<forall>j<kk. ret (k (calls wld @
                  map (\<lambda>q. DRM_IOCTL_PRIME_FD_TO_HANDLE (fds data ! q)) [0..<j])
                  (DRM_IOCTL_PRIME_FD_TO_HANDLE (fds data ! j))) = 0"
    and fail: "ret (k (calls wld @
                  map (\<lambda>q. DRM_IOCTL_PRIME_FD_TO_HANDLE (fds data ! q)) [0..<kk])
                  (DRM_IOCTL_PRIME_FD_TO_HANDLE (fds data ! kk))) \<noteq> 0"
  shows "\<exists>b' w' closes.
      drv_prime_bo_import k wld b data = (- errno w', b', w') \<and>
      num_planes (meta b') = kk \<and>
      calls w' = calls wld @
         map (\<lambda>q. DRM_IOCTL_PRIME_FD_TO_HANDLE (fds data ! q)) [0..<Suc kk] @
         map DRM_IOCTL_GEM_CLOSE closes \<and>
      (\<forall>j<kk. count_list closes (out_handle (k (calls wld @
                  map (\<lambda>q. DRM_IOCTL_PRIME_FD_TO_HANDLE (fds data ! q)) [0..<j])
                  (DRM_IOCTL_PRIME_FD_TO_HANDLE (fds data ! j)))) = 1) \<and>
      (\<forall>h\<in>set closes. \<exists>j<kk. h = out_handle (k (calls wld @
                  map (\<lambda>q. DRM_IOCTL_PRIME_FD_TO_HANDLE (fds data ! q)) [0..<j])
                  (DRM_IOCTL_PRIME_FD_TO_HANDLE (fds data ! j))))"
proof -
  let ?P = "\<lambda>q. DRM_IOCTL_PRIME_FD_TO_HANDLE (fds data ! q)"
  let ?acq = "\<lambda>j. out_handle (k (calls wld @ map ?P [0..<j]) (?P j))"
  have len: "length (handles b) = DRV_MAX_PLANES" using ok by (simp add: bo_arrays_ok_def)
  have succ': "\<forall>j. 0 \<le> j \<and> j < kk \<longrightarrow> ret (k (calls wld @ map ?P [0..<j]) (?P j)) = 0"
    using succ by simp
  from prime_import_planes_failure [OF len n le0 kk succ' fail]
  obtain b' w' where run: "prime_import_planes k data 0 wld b = (- errno w', b', w')"
    and np: "num_planes (meta b') = kk"
    and hs: "\<forall>j. 0 \<le> j \<and> j < kk \<longrightarrow> handles b' ! j = ?acq j"
    and cl: "calls w' = calls wld @ map ?P [0..<Suc kk] @
         map (\<lambda>q. DRM_IOCTL_GEM_CLOSE (handles b' ! q))
           (filter (\<lambda>q. \<forall>i<q. handles b' ! i \<noteq> handles b' ! q) [0..<kk])"
    by blast
  let ?closes = "map (\<lambda>q. handles b' ! q)
           (filter (\<lambda>q. \<forall>i<q. handles b' ! i \<noteq> handles b' ! q) [0..<kk])"
  have cnt: "count_list ?closes h = (if \<exists>q<kk. handles b' ! q = h then 1 else 0)" for h
    by (rule count_first_planes)
  have c1: "calls w' = calls wld @ map ?P [0..<Suc kk] @ map DRM_IOCTL_GEM_CLOSE ?closes"
    using cl by (simp add: comp_def)
  have c2: "\<forall>j<kk. count_list ?closes (?acq j) = 1"
  proof (intro allI impI)
    fix j assume j: "j < kk"
    then have "handles b' ! j = ?acq j" using hs by simp
    then have "\<exists>q<kk. handles b' ! q = ?acq j" using j by blast
    then show "count_list ?closes (?acq j) = 1" using cnt [of "?acq j"] by simp
  qed
  have c3: "\<forall>h\<in>set ?closes. \<exists>j<kk. h = ?acq j"
  proof
    fix h assume "h \<in> set ?closes"
    then have "count_list ?closes h \<noteq> 0" by (simp add: count_list_0_iff)
    then have "\<exists>q<kk. handles b' ! q = h" using cnt [of h] by (auto split: if_splits)
    then show "\<exists>j<kk. h = ?acq j" using hs by auto
  qed
  show ?thesis
    unfolding drv_prime_bo_import_def using run np c1 c2 c3 by blast
qed


text \<open>
  C9 for three planes: descriptors 10 and 11 are imported as handles 1 and 2, descriptor 12
  fails, and handles 1 and 2 are closed once each.
\<close>

theorem prime_import_failure_closes_acquired_witness:
  "bo_arrays_ok (zeroed_bo 0 3) \<and>
   length (fds \<lparr>fds = [10, 11, 12, 0], tiling = 0\<rparr>) = DRV_MAX_PLANES \<and>
   num_planes (meta (zeroed_bo 0 3)) \<le> DRV_MAX_PLANES \<and>
   2 < num_planes (meta (zeroed_bo 0 3)) \<and>
   ret (example_import_kernel [] (DRM_IOCTL_PRIME_FD_TO_HANDLE 10)) = 0 \<and>
   ret (example_import_kernel [DRM_IOCTL_PRIME_FD_TO_HANDLE 10]
          (DRM_IOCTL_PRIME_FD_TO_HANDLE 11)) = 0 \<and>
   ret (example_import_kernel [DRM_IOCTL_PRIME_FD_TO_HANDLE 10, DRM_IOCTL_PRIME_FD_TO_HANDLE 11]
          (DRM_IOCTL_PRIME_FD_TO_HANDLE 12)) \<noteq> 0 \<and>
   (\<exists>b' w' closes.
      drv_prime_bo_import example_import_kernel \<lparr>calls = [], errno = 0\<rparr> (zeroed_bo 0 3)
        \<lparr>fds = [10, 11, 12, 0], tiling = 0\<rparr> = (- errno w', b', w') \<and>
      num_planes (meta b') = 2 \<and>
      calls w' = [DRM_IOCTL_PRIME_FD_TO_HANDLE 10, DRM_IOCTL_PRIME_FD_TO_HANDLE 11,
                  DRM_IOCTL_PRIME_FD_TO_HANDLE 12] @ map DRM_IOCTL_GEM_CLOSE closes \<and>
      count_list closes 1 = 1 \<and> count_list closes 2 = 1)"
proof -
  let ?D = "\<lparr>fds = [10, 11, 12, 0], tiling = 0\<rparr>"
  let ?W = "\<lparr>calls = [], errno = 0\<rparr>"
  let ?K = example_import_kernel
  let ?P = "\<lambda>q. DRM_IOCTL_PRIME_FD_TO_HANDLE (fds ?D ! q)"
  have h: "bo_arrays_ok (zeroed_bo 0 3)" "length (fds ?D) = DRV_MAX_PLANES"
    "num_planes (meta (zeroed_bo 0 3)) \<le> DRV_MAX_PLANES"
    "2 < num_planes (meta (zeroed_bo 0 3))"
    by (simp_all add: zeroed_bo_ok DRV_MAX_PLANES_def) (simp_all add: zeroed_bo_def)
  have r0: "?K (calls ?W @ map ?P [0..<0]) (?P 0) =
      \<lparr>ret = 0, err = 0, out_handle = 1, out_pitch = 0, out_size = 0\<rparr>"
    by (simp add: example_import_kernel_def)
  have r1: "?K (calls ?W @ map ?P [0..<1]) (?P 1) =
      \<lparr>ret = 0, err = 0, out_handle = 2, out_pitch = 0, out_size = 0\<rparr>"
    by (simp add: example_import_kernel_def)
  have r2: "?K (calls ?W @ map ?P [0..<2]) (?P 2) =
      \<lparr>ret = - 1, err = 9, out_handle = 0, out_pitch = 0, out_size = 0\<rparr>"
    by (simp add: example_import_kernel_def)
  have succ: "\<forall>j<2. ret (?K (calls ?W @ map ?P [0..<j]) (?P j)) = 0"
  proof (intro allI impI)
    fix j :: nat assume "j < 2"
    then consider "j = 0" | "j = 1" by linarith
    then show "ret (?K (calls ?W @ map ?P [0..<j]) (?P j)) = 0"
      using r0 r1 by cases simp_all
  qed
  have fail: "ret (?K (calls ?W @ map ?P [0..<2]) (?P 2)) \<noteq> 0"
    using r2 by simp
  from prime_import_failure_closes_acquired [OF h succ fail]
  obtain b' w' closes where
    run: "drv_prime_bo_import ?K ?W (zeroed_bo 0 3) ?D = (- errno w', b', w')"
    and np: "num_planes (meta b') = 2"
    and cl: "calls w' = calls ?W @ map ?P [0..<Suc 2] @ map DRM_IOCTL_GEM_CLOSE closes"
    and cnt: "\<forall>j<2. count_list closes (out_handle (?K (calls ?W @ map ?P [0..<j]) (?P j))) = 1"
    by blast
  have cl': "calls w' = [DRM_IOCTL_PRIME_FD_TO_HANDLE 10, DRM_IOCTL_PRIME_FD_TO_HANDLE 11,
                  DRM_IOCTL_PRIME_FD_TO_HANDLE 12] @ map DRM_IOCTL_GEM_CLOSE closes"
    using cl by (simp add: upt_rec)
  have c1: "count_list closes 1 = 1" using cnt [rule_format, of 0] r0 by simp
  have c2: "count_list closes 2 = 1" using cnt [rule_format, of 1] r1 by simp
  have k0: "ret (?K [] (DRM_IOCTL_PRIME_FD_TO_HANDLE 10)) = 0"
    "ret (?K [DRM_IOCTL_PRIME_FD_TO_HANDLE 10] (DRM_IOCTL_PRIME_FD_TO_HANDLE 11)) = 0"
    "ret (?K [DRM_IOCTL_PRIME_FD_TO_HANDLE 10, DRM_IOCTL_PRIME_FD_TO_HANDLE 11]
          (DRM_IOCTL_PRIME_FD_TO_HANDLE 12)) \<noteq> 0"
    by (simp_all add: example_import_kernel_def)
  show ?thesis
    using h k0 run np cl' c1 c2 by blast
qed

section \<open>Destroying the mappings of a buffer object\<close>
























text \<open>
  Claim C3 fails on the code. The buffer object has two planes with the handles 1 and 2, and
  the cache holds one mapping for each. \<^verbatim>\<open>drv_mapping_destroy\<close> returns 0 having unmapped
  and removed the mapping of handle 1 only: the mapping of plane 1's handle is still in the
  cache, its refcount is still 1 and the backend's unmap was not called for it.
\<close>

theorem mapping_destroy_misses_later_plane:
  "\<not> isl (drv_mapping_destroy (\<lambda>history b p v. 0) two_handle_cache
            ((zeroed_bo 0 2)\<lparr>handles := [1, 2, 0, 0]\<rparr>)) \<and>
   fst (projr (drv_mapping_destroy (\<lambda>history b p v. 0) two_handle_cache
            ((zeroed_bo 0 2)\<lparr>handles := [1, 2, 0, 0]\<rparr>))) = 0 \<and>
   mappings (the_driver (snd (projr (drv_mapping_destroy (\<lambda>history b p v. 0) two_handle_cache
            ((zeroed_bo 0 2)\<lparr>handles := [1, 2, 0, 0]\<rparr>))))) = [\<lparr>vma = 1\<rparr>] \<and>
   unmaps (snd (projr (drv_mapping_destroy (\<lambda>history b p v. 0) two_handle_cache
            ((zeroed_bo 0 2)\<lparr>handles := [1, 2, 0, 0]\<rparr>)))) = [0] \<and>
   vmas (snd (projr (drv_mapping_destroy (\<lambda>history b p v. 0) two_handle_cache
            ((zeroed_bo 0 2)\<lparr>handles := [1, 2, 0, 0]\<rparr>)))) 1 = Some \<lparr>handle = 2, refcount = 1\<rparr>"
  by code_simp

end
